theory Spec2Isabelle
  imports Complex_Main "HOL-Library.AList"
begin

section \<open>The wrapped simulator and the wrapper's state\<close>

text \<open>
  \<^verbatim>\<open>openspiel_wrapper.py\<close> adapts a game simulator to an agent-cycling
  environment. The simulator (\<^verbatim>\<open>pyspiel.Game\<close> and the state object it
  hands out) and the random generator of the environment are outside the file,
  so they enter the model as a record of functions: every method the wrapper calls
  is one field. The three simulator calls the wrapper guards with
  \<^verbatim>\<open>except pyspiel.SpielError\<close> return a sum whose left injection carries
  the message of the \<^verbatim>\<open>SpielError\<close>; the other simulator calls, the
  generator's \<^verbatim>\<open>choice\<close> and the constructors of the two spaces are taken
  as total. The exceptions Python itself raises inside the wrapper (a missing
  dictionary key, an index out of range, a failed unpacking) are results of the model.
  The methods of the state object take the state as their first argument;
  \<open>apply_action\<close> takes one action id, \<open>state_rewards\<close> is
  \<^verbatim>\<open>game_state.rewards()\<close>, and \<open>game_name\<close> is \<^verbatim>\<open>str(self.game)\<close>. \<^verbatim>\<open>functools.lru_cache\<close> on the two
  space methods stores results the game determines, so it does not show in the model.
\<close>

datatype error =
    SpielError string
  | NotImplementedError string
  | KeyError
  | IndexError
  | ValueError
  | AttributeError
  | TypeError

datatype bound = NegInf | PosInf

datatype space = Box bound bound "nat list" | Discrete nat

record ('s, 'o, 'r) game =
  game_name :: string
  num_players :: nat
  observation_tensor_shape :: "string + nat list"
  num_distinct_actions :: "string + nat"
  max_game_length :: int
  new_initial_state :: 's
  is_chance_node :: "'s \<Rightarrow> bool"
  is_simultaneous_node :: "'s \<Rightarrow> bool"
  is_terminal :: "'s \<Rightarrow> bool"
  current_player :: "'s \<Rightarrow> int"
  chance_outcomes :: "'s \<Rightarrow> (int \<times> real) list"
  apply_action :: "'s \<Rightarrow> int \<Rightarrow> 's"
  legal_actions :: "'s \<Rightarrow> nat \<Rightarrow> int list"
  observation_tensor :: "'s \<Rightarrow> nat \<Rightarrow> string + 'o"
  state_rewards :: "'s \<Rightarrow> real list"
  choice :: "'r \<Rightarrow> int list \<Rightarrow> real list \<Rightarrow> int \<times> 'r"

text \<open>
  A Python dictionary is an association list: \<^const>\<open>map_of\<close> reads it and
  \<^const>\<open>AList.update\<close> assigns to a key, keeping the position of a key that
  is present and appending a new one, which is the insertion order
  \<^verbatim>\<open>dict.values()\<close> follows. The entry of \<^verbatim>\<open>infos\<close> is
  \<^verbatim>\<open>{}\<close> (\<open>None\<close>) or \<^verbatim>\<open>{"action_mask": mask}\<close> (\<open>Some mask\<close>).
\<close>

type_synonym ('k, 'v) dict = "('k \<times> 'v) list"

record ('s, 'o, 'r) env =
  np_random :: 'r
  agents :: "string list"
  cumulative_rewards :: "(string, real) dict"
  rewards :: "(string, real) dict"
  terminations :: "(string, bool) dict"
  truncations :: "(string, bool) dict"
  infos :: "(string, int list option) dict"
  game_length :: int
  game_state :: 's
  simultaneous_actions :: "(string, int) dict"
  observations :: "(string, 'o) dict"
  agent_selection :: string

definition dict_comp :: "('k \<Rightarrow> 'v) \<Rightarrow> 'k list \<Rightarrow> ('k, 'v) dict" where
  \<comment> \<open>\<^verbatim>\<open>{a: f(a) for a in xs}\<close>\<close>
  "dict_comp f xs = foldl (\<lambda>d a. AList.update a (f a) d) [] xs"

definition getitem :: "('k, 'v) dict \<Rightarrow> 'k \<Rightarrow> error + 'v" where
  \<comment> \<open>\<^verbatim>\<open>d[k]\<close>\<close>
  "getitem d k = (case map_of d k of None \<Rightarrow> Inl KeyError | Some v \<Rightarrow> Inr v)"

subsection \<open>Agent names\<close>

definition digit_char :: "nat \<Rightarrow> char" where
  "digit_char d = ''0123456789'' ! d"

fun str :: "nat \<Rightarrow> string" where
  "str n = (if n < 10 then [digit_char n] else str (n div 10) @ [digit_char (n mod 10)])"

declare str.simps [simp del]

definition player_name :: "nat \<Rightarrow> string" where
  "player_name i = ''player_'' @ str i"

definition possible_agents :: "('s, 'o, 'r) game \<Rightarrow> string list" where
  "possible_agents g = map (\<lambda>r. ''player_'' @ str r) [0..<num_players g]"

definition agent_id_name_mapping :: "('s, 'o, 'r) game \<Rightarrow> (int, string) dict" where
  "agent_id_name_mapping g = zip (map int [0..<num_players g]) (possible_agents g)"

definition agent_name_id_mapping :: "('s, 'o, 'r) game \<Rightarrow> (string, nat) dict" where
  "agent_name_id_mapping g = zip (possible_agents g) [0..<num_players g]"

subsection \<open>Spaces, render, observe\<close>

definition translate :: "('s, 'o, 'r) game \<Rightarrow> string \<Rightarrow> error" where
  \<comment> \<open>\<^verbatim>\<open>NotImplementedError(f"{str(e)[:-1]} for {self.game}.")\<close>\<close>
  "translate g m = NotImplementedError (butlast m @ '' for '' @ game_name g @ ''.'')"

definition observation_space :: "('s, 'o, 'r) game \<Rightarrow> string \<Rightarrow> error + space" where
  "observation_space g agent =
     (case observation_tensor_shape g of
        Inl m \<Rightarrow> Inl (translate g m)
      | Inr shape \<Rightarrow> Inr (Box NegInf PosInf shape))"

definition action_space :: "('s, 'o, 'r) game \<Rightarrow> string \<Rightarrow> error + space" where
  "action_space g agent =
     (case num_distinct_actions g of
        Inl m \<Rightarrow> Inl (translate g m)
      | Inr n \<Rightarrow> Inr (Discrete n))"

definition render :: "('s, 'o, 'r) game \<Rightarrow> error + unit" where
  "render g = Inl (NotImplementedError ''No render available for openspiel.'')"

definition observe :: "('s, 'o, 'r) env \<Rightarrow> string \<Rightarrow> error + 'o" where
  "observe st agent = getitem (observations st) agent"

section \<open>The operations of the wrapper\<close>

subsection \<open>Chance nodes\<close>

text \<open>
  One round of the loop of \<^verbatim>\<open>_execute_chance_node\<close>. Unpacking
  \<^verbatim>\<open>zip(*outcomes_with_probs)\<close> into two names fails on an empty list.
\<close>

definition chance_step :: "('s, 'o, 'r) game \<Rightarrow> ('s, 'o, 'r) env \<Rightarrow> error + ('s, 'o, 'r) env" where
  "chance_step g st =
     (let outcomes_with_probs = chance_outcomes g (game_state st) in
      if outcomes_with_probs = [] then Inl ValueError
      else
        (case choice g (np_random st) (map fst outcomes_with_probs) (map snd outcomes_with_probs) of
           (action, r) \<Rightarrow>
             Inr (st\<lparr>game_length := game_length st + 1,
                     np_random := r,
                     game_state := apply_action g (game_state st) action\<rparr>)))"

text \<open>
  The loop runs as long as the simulator reports chance nodes, which may be forever:
  \<open>None\<close> is the call that does not return.
\<close>

partial_function (option) execute_chance_node ::
  "('s, 'o, 'r) game \<Rightarrow> ('s, 'o, 'r) env \<Rightarrow> (error + ('s, 'o, 'r) env) option" where
  "execute_chance_node g st =
     (if is_chance_node g (game_state st) then
        (case chance_step g st of
           Inl e \<Rightarrow> Some (Inl e)
         | Inr st' \<Rightarrow> execute_chance_node g st')
      else Some (Inr st))"

declare execute_chance_node.simps [code]

subsection \<open>Action nodes\<close>

text \<open>
  Once every agent has submitted at a simultaneous node, the wrapper calls
  \<^verbatim>\<open>apply_action(self.simultaneous_actions.values())\<close>: the argument is the
  \<^verbatim>\<open>dict_values\<close> view of the holder, not an action id, and the simulator refuses
  it with \<^verbatim>\<open>TypeError\<close>: its state is not advanced, and the two statements after
  the call (the node counter, the emptied holder) are never reached.
\<close>

definition execute_action_node ::
  "('s, 'o, 'r) game \<Rightarrow> ('s, 'o, 'r) env \<Rightarrow> int \<Rightarrow> error + ('s, 'o, 'r) env" where
  "execute_action_node g st action =
     (if is_simultaneous_node g (game_state st) then
        (let sa = AList.update (agent_selection st) action (simultaneous_actions st);
             cr = AList.update (agent_selection st) 0 (cumulative_rewards st);
             st1 = st\<lparr>simultaneous_actions := sa, cumulative_rewards := cr\<rparr>
         in case find (\<lambda>agent. agent \<notin> set (map fst sa)) (agents st) of
              Some agent \<Rightarrow> Inr (st1\<lparr>agent_selection := agent\<rparr>)
            | None \<Rightarrow> Inl TypeError)
      else
        (let gs = apply_action g (game_state st) action;
             st1 = st\<lparr>game_state := gs, game_length := game_length st + 1\<rparr>;
             current_player = current_player g gs
         in if current_player \<ge> 0 then
              (case getitem (agent_id_name_mapping g) current_player of
                 Inl e \<Rightarrow> Inl e
               | Inr name \<Rightarrow> Inr (st1\<lparr>agent_selection := name\<rparr>))
            else
              (case agents st of
                 [] \<Rightarrow> Inl IndexError
               | a # _ \<Rightarrow> Inr (st1\<lparr>agent_selection := a\<rparr>))))"

subsection \<open>Observations, action masks, rewards\<close>

fun observations_loop ::
  "('s, 'o, 'r) game \<Rightarrow> 's \<Rightarrow> string list \<Rightarrow> (string, 'o) dict \<Rightarrow> error + (string, 'o) dict" where
  "observations_loop g gs [] d = Inr d"
| "observations_loop g gs (a # as) d =
     (case getitem (agent_name_id_mapping g) a of
        Inl e \<Rightarrow> Inl e
      | Inr i \<Rightarrow>
          (case observation_tensor g gs i of
             Inl m \<Rightarrow> Inl (translate g m)
           | Inr t \<Rightarrow> observations_loop g gs as (AList.update a t d)))"

definition update_observations ::
  "('s, 'o, 'r) game \<Rightarrow> ('s, 'o, 'r) env \<Rightarrow> error + ('s, 'o, 'r) env" where
  "update_observations g st =
     (case observations_loop g (game_state st) (agents st) [] of
        Inl e \<Rightarrow> Inl e
      | Inr d \<Rightarrow> Inr (st\<lparr>observations := d\<rparr>))"

text \<open>
  \<^verbatim>\<open>action_mask[legal] = 1\<close> on a numpy vector: an index below zero counts
  from the end, an index outside \<open>[-n, n)\<close> raises \<^verbatim>\<open>IndexError\<close>.
\<close>

fun set_ones :: "int list \<Rightarrow> int list \<Rightarrow> error + int list" where
  "set_ones action_mask [] = Inr action_mask"
| "set_ones action_mask (a # as) =
     (let n = int (length action_mask); j = (if a < 0 then a + n else a)
      in if 0 \<le> j \<and> j < n then set_ones (action_mask[nat j := 1]) as else Inl IndexError)"

fun action_masks_loop ::
  "('s, 'o, 'r) game \<Rightarrow> 's \<Rightarrow> nat list \<Rightarrow> (string, int list option) dict
     \<Rightarrow> error + (string, int list option) dict" where
  "action_masks_loop g gs [] infs = Inr infs"
| "action_masks_loop g gs (agent_id # ids) infs =
     (case getitem (agent_id_name_mapping g) (int agent_id) of
        Inl e \<Rightarrow> Inl e
      | Inr agent_name \<Rightarrow>
          (case action_space g agent_name of
             Inl e \<Rightarrow> Inl e
           | Inr (Box lo hi shape) \<Rightarrow> Inl AttributeError
           | Inr (Discrete n) \<Rightarrow>
               (case set_ones (replicate n 0) (legal_actions g gs agent_id) of
                  Inl e \<Rightarrow> Inl e
                | Inr action_mask \<Rightarrow>
                    action_masks_loop g gs ids (AList.update agent_name (Some action_mask) infs))))"

definition update_action_masks ::
  "('s, 'o, 'r) game \<Rightarrow> ('s, 'o, 'r) env \<Rightarrow> error + ('s, 'o, 'r) env" where
  "update_action_masks g st =
     (case action_masks_loop g (game_state st) [0..<num_players g] (infos st) of
        Inl e \<Rightarrow> Inl e
      | Inr infs \<Rightarrow> Inr (st\<lparr>infos := infs\<rparr>))"

fun rewards_loop ::
  "('s, 'o, 'r) game \<Rightarrow> real list \<Rightarrow> nat list \<Rightarrow> (string, real) dict \<Rightarrow> error + (string, real) dict" where
  "rewards_loop g rs [] d = Inr d"
| "rewards_loop g rs (i # ids) d =
     (case getitem (agent_id_name_mapping g) (int i) of
        Inl e \<Rightarrow> Inl e
      | Inr name \<Rightarrow>
          (if i < length rs then rewards_loop g rs ids (AList.update name (rs ! i) d)
           else Inl IndexError))"

definition update_rewards ::
  "('s, 'o, 'r) game \<Rightarrow> ('s, 'o, 'r) env \<Rightarrow> error + ('s, 'o, 'r) env" where
  "update_rewards g st =
     (case rewards_loop g (state_rewards g (game_state st)) [0..<num_players g] [] of
        Inl e \<Rightarrow> Inl e
      | Inr d \<Rightarrow> Inr (st\<lparr>cumulative_rewards := d\<rparr>))"

subsection \<open>The end routine\<close>

text \<open>
  The loop over \<^verbatim>\<open>self.agents\<close> that looks for an action mask whose sum is
  zero. \<open>ags\<close> is the whole list of agents, the third argument what is left of it.
\<close>

fun masks_check ::
  "(string, int list option) dict \<Rightarrow> string list \<Rightarrow> string list \<Rightarrow> (string, bool) dict
     \<Rightarrow> error + (string, bool) dict" where
  "masks_check infs ags [] t = Inr t"
| "masks_check infs ags (agent # rest) t =
     (case getitem infs agent of
        Inl e \<Rightarrow> Inl e
      | Inr None \<Rightarrow> Inl KeyError
      | Inr (Some action_mask) \<Rightarrow>
          masks_check infs ags rest
            (if sum_list action_mask = 0 then dict_comp (\<lambda>a. True) ags else t))"

definition end_routine ::
  "('s, 'o, 'r) game \<Rightarrow> ('s, 'o, 'r) env \<Rightarrow> error + (bool \<times> ('s, 'o, 'r) env)" where
  "end_routine g st =
     (let t1 = (if is_terminal g (game_state st) then dict_comp (\<lambda>a. True) (agents st)
                else dict_comp (\<lambda>a. False) (agents st));
          tr = (if game_length st > max_game_length g then dict_comp (\<lambda>a. True) (agents st)
                else dict_comp (\<lambda>a. False) (agents st))
      in case masks_check (infos st) (agents st) (agents st) t1 of
           Inl e \<Rightarrow> Inl e
         | Inr t \<Rightarrow>
             (case getitem t (agent_selection st) of
                Inl e \<Rightarrow> Inl e
              | Inr terminated \<Rightarrow>
                  (case (if terminated then Inr True else getitem tr (agent_selection st)) of
                     Inl e \<Rightarrow> Inl e
                   | Inr finished \<Rightarrow>
                       (let st1 = st\<lparr>terminations := t, truncations := tr\<rparr> in
                        if finished then
                          (if agent_selection st \<in> set (agents st) then
                             (case remove1 (agent_selection st) (agents st) of
                                [] \<Rightarrow> Inr (True, st1\<lparr>agents := []\<rparr>)
                              | a # as \<Rightarrow> Inr (True, st1\<lparr>agents := a # as, agent_selection := a\<rparr>))
                           else Inl ValueError)
                        else Inr (False, st1)))))"

subsection \<open>reset and step\<close>

text \<open>
  \<open>r\<close> is the generator \<^verbatim>\<open>seeding.np_random(seed)\<close> returns. Before
  \<^verbatim>\<open>reset\<close> assigns them, \<^verbatim>\<open>observations\<close> and
  \<^verbatim>\<open>agent_selection\<close> hold nothing that \<^verbatim>\<open>reset\<close> reads; the record
  starts them empty.
\<close>

definition reset_fields :: "('s, 'o, 'r) game \<Rightarrow> 'r \<Rightarrow> ('s, 'o, 'r) env" where
  "reset_fields g r =
     \<lparr>np_random = r,
      agents = possible_agents g,
      cumulative_rewards = dict_comp (\<lambda>a. 0) (possible_agents g),
      rewards = dict_comp (\<lambda>a. 0) (possible_agents g),
      terminations = dict_comp (\<lambda>a. False) (possible_agents g),
      truncations = dict_comp (\<lambda>a. False) (possible_agents g),
      infos = dict_comp (\<lambda>a. None) (possible_agents g),
      game_length = 1,
      game_state = new_initial_state g,
      simultaneous_actions = [],
      observations = [],
      agent_selection = []\<rparr>"

definition reset :: "('s, 'o, 'r) game \<Rightarrow> 'r \<Rightarrow> (error + ('s, 'o, 'r) env) option" where
  "reset g r =
     (case execute_chance_node g (reset_fields g r) of
        None \<Rightarrow> None
      | Some (Inl e) \<Rightarrow> Some (Inl e)
      | Some (Inr st1) \<Rightarrow>
          (case update_observations g st1 of
             Inl e \<Rightarrow> Some (Inl e)
           | Inr st2 \<Rightarrow>
               (case update_action_masks g st2 of
                  Inl e \<Rightarrow> Some (Inl e)
                | Inr st3 \<Rightarrow>
                    (case getitem (agent_id_name_mapping g) (current_player g (game_state st3)) of
                       Inl e \<Rightarrow> Some (Inl e)
                     | Inr name \<Rightarrow> Some (Inr (st3\<lparr>agent_selection := name\<rparr>))))))"

definition updates ::
  "('s, 'o, 'r) game \<Rightarrow> ('s, 'o, 'r) env \<Rightarrow> error + ('s, 'o, 'r) env" where
  \<comment> \<open>the last three calls of \<^verbatim>\<open>step\<close>\<close>
  "updates g st =
     (case update_observations g st of
        Inl e \<Rightarrow> Inl e
      | Inr st1 \<Rightarrow>
          (case update_action_masks g st1 of
             Inl e \<Rightarrow> Inl e
           | Inr st2 \<Rightarrow> update_rewards g st2))"

definition step ::
  "('s, 'o, 'r) game \<Rightarrow> ('s, 'o, 'r) env \<Rightarrow> int \<Rightarrow> (error + ('s, 'o, 'r) env) option" where
  "step g st action =
     (case end_routine g st of
        Inl e \<Rightarrow> Some (Inl e)
      | Inr (True, st1) \<Rightarrow> Some (Inr st1)
      | Inr (False, st1) \<Rightarrow>
          (case execute_action_node g st1 action of
             Inl e \<Rightarrow> Some (Inl e)
           | Inr st2 \<Rightarrow>
               (case execute_chance_node g st2 of
                  None \<Rightarrow> None
                | Some (Inl e) \<Rightarrow> Some (Inl e)
                | Some (Inr st3) \<Rightarrow> Some (updates g st3))))"

subsection \<open>Sessions\<close>

text \<open>
  A session is one call of \<^verbatim>\<open>reset\<close> followed by calls of \<^verbatim>\<open>step\<close>, up to
  the first call that raises or does not return.
\<close>

fun steps ::
  "('s, 'o, 'r) game \<Rightarrow> (error + ('s, 'o, 'r) env) option \<Rightarrow> int list
     \<Rightarrow> (error + ('s, 'o, 'r) env) option" where
  "steps g res [] = res"
| "steps g res (a # as) =
     (case res of Some (Inr st) \<Rightarrow> steps g (step g st a) as | _ \<Rightarrow> res)"

definition run :: "('s, 'o, 'r) game \<Rightarrow> 'r \<Rightarrow> int list \<Rightarrow> (error + ('s, 'o, 'r) env) option" where
  "run g r as = steps g (reset g r) as"

definition zero_mask :: "(string, int list option) dict \<Rightarrow> string \<Rightarrow> bool" where
  \<comment> \<open>\<^verbatim>\<open>np.sum(infos[agent]["action_mask"]) == 0\<close>\<close>
  "zero_mask infs a = (case map_of infs a of Some (Some m) \<Rightarrow> sum_list m = 0 | _ \<Rightarrow> False)"

text \<open>
  \<open>k\<close> rounds of the loop of \<^verbatim>\<open>_execute_chance_node\<close>, each at a chance node;
  \<open>None\<close> when a node that is not a chance node comes before the \<open>k\<close> rounds are done.
\<close>

fun chance_iter ::
  "('s, 'o, 'r) game \<Rightarrow> nat \<Rightarrow> ('s, 'o, 'r) env \<Rightarrow> (error + ('s, 'o, 'r) env) option" where
  "chance_iter g 0 st = Some (Inr st)"
| "chance_iter g (Suc k) st =
     (if is_chance_node g (game_state st) then
        (case chance_step g st of Inl e \<Rightarrow> Some (Inl e) | Inr st' \<Rightarrow> chance_iter g k st')
      else None)"

text \<open>What the end routine finds: the two flags it gives to every agent.\<close>

definition terminated_flag :: "('s, 'o, 'r) game \<Rightarrow> ('s, 'o, 'r) env \<Rightarrow> bool" where
  "terminated_flag g st =
     (is_terminal g (game_state st) \<or> (\<exists>a\<in>set (agents st). zero_mask (infos st) a))"

definition truncated_flag :: "('s, 'o, 'r) game \<Rightarrow> ('s, 'o, 'r) env \<Rightarrow> bool" where
  "truncated_flag g st = (game_length st > max_game_length g)"

definition flags_after ::
  "('s, 'o, 'r) game \<Rightarrow> ('s, 'o, 'r) env \<Rightarrow> error + (string, bool) dict \<times> (string, bool) dict" where
  \<comment> \<open>\<^verbatim>\<open>terminations\<close> and \<^verbatim>\<open>truncations\<close> as the end routine leaves them\<close>
  "flags_after g st =
     (case end_routine g st of
        Inl e \<Rightarrow> Inl e
      | Inr (b, st') \<Rightarrow> Inr (terminations st', truncations st'))"

text \<open>
  The action node keeps the simulator state when the node is simultaneous and an
  agent has not submitted its action yet.
\<close>

definition pending :: "('s, 'o, 'r) game \<Rightarrow> ('s, 'o, 'r) env \<Rightarrow> int \<Rightarrow> bool" where
  "pending g st action =
     (is_simultaneous_node g (game_state st) \<and>
      (\<exists>agent\<in>set (agents st).
         agent \<notin> set (map fst (AList.update (agent_selection st) action (simultaneous_actions st)))))"

section \<open>Example simulators\<close>

text \<open>
  A game for one player: a chance node, two decisions, then the end. The generator
  is a counter that picks the outcome at its value modulo the number of outcomes.
\<close>

definition solo :: "(nat, nat list, nat) game" where
  "solo =
     \<lparr>game_name = ''solo()'',
      num_players = 1,
      observation_tensor_shape = Inr [1],
      num_distinct_actions = Inr 2,
      max_game_length = 10,
      new_initial_state = 0,
      is_chance_node = (\<lambda>s. s = 0),
      is_simultaneous_node = (\<lambda>s. False),
      is_terminal = (\<lambda>s. 3 \<le> s),
      current_player = (\<lambda>s. if s = 0 then - 1 else if 3 \<le> s then - 4 else 0),
      chance_outcomes = (\<lambda>s. if s = 0 then [(0, 1 / 2), (1, 1 / 2)] else []),
      apply_action = (\<lambda>s a. s + 1),
      legal_actions = (\<lambda>s i. if s = 1 \<or> s = 2 then [0, 1] else []),
      observation_tensor = (\<lambda>s i. Inr [s]),
      state_rewards = (\<lambda>s. [real s]),
      choice = (\<lambda>r as ps. (as ! (r mod length as), r + 1))\<rparr>"

text \<open>The same game on a simulator that offers neither tensors nor an action count.\<close>

definition blind :: "(nat, nat list, nat) game" where
  "blind =
     solo\<lparr>game_name := ''blind()'',
          observation_tensor_shape := Inl ''ObservationTensorShape unimplemented!'',
          num_distinct_actions := Inl ''NumDistinctActions unimplemented!'',
          observation_tensor := (\<lambda>s i. Inl ''ObservationTensor unimplemented!'')\<rparr>"

text \<open>
  A game of two players who move in turn; as in the simulator, the player who is not
  to move has no legal action.
\<close>

definition turns :: "(nat, nat list, nat) game" where
  "turns =
     \<lparr>game_name = ''turns()'',
      num_players = 2,
      observation_tensor_shape = Inr [1],
      num_distinct_actions = Inr 2,
      max_game_length = 10,
      new_initial_state = 0,
      is_chance_node = (\<lambda>s. False),
      is_simultaneous_node = (\<lambda>s. False),
      is_terminal = (\<lambda>s. 2 \<le> s),
      current_player = (\<lambda>s. if 2 \<le> s then - 4 else int s),
      chance_outcomes = (\<lambda>s. []),
      apply_action = (\<lambda>s a. s + 1),
      legal_actions = (\<lambda>s i. if s < 2 \<and> i = s then [0, 1] else []),
      observation_tensor = (\<lambda>s i. Inr [s]),
      state_rewards = (\<lambda>s. [0, 0]),
      choice = (\<lambda>r as ps. (as ! (r mod length as), r + 1))\<rparr>"

text \<open>
  Two players, a first move of player 0, then a simultaneous node; every player has
  legal actions at both.
\<close>

definition duo :: "(nat, nat list, nat) game" where
  "duo =
     turns\<lparr>game_name := ''duo()'',
           is_simultaneous_node := (\<lambda>s. s = 1),
           current_player := (\<lambda>s. if s = 0 then 0 else if s = 1 then - 2 else - 4),
           legal_actions := (\<lambda>s i. if s < 2 then [0, 1] else [])\<rparr>"

text \<open>
  Two players; player 0 is always to move and never has a legal action, player 1
  always has one.
\<close>

definition stuck :: "(nat, nat list, nat) game" where
  "stuck =
     turns\<lparr>game_name := ''stuck()'',
           current_player := (\<lambda>s. if 2 \<le> s then - 4 else 0),
           legal_actions := (\<lambda>s i. if s < 2 \<and> i = 1 then [0] else [])\<rparr>"

text \<open>The environment \<^verbatim>\<open>reset\<close> leaves on \<open>turns\<close>.\<close>

definition turns_start :: "(nat, nat list, nat) env" where
  "turns_start =
     \<lparr>np_random = 0,
      agents = [''player_0'', ''player_1''],
      cumulative_rewards = [(''player_0'', 0), (''player_1'', 0)],
      rewards = [(''player_0'', 0), (''player_1'', 0)],
      terminations = [(''player_0'', False), (''player_1'', False)],
      truncations = [(''player_0'', False), (''player_1'', False)],
      infos = [(''player_0'', Some [1, 1]), (''player_1'', Some [0, 0])],
      game_length = 1,
      game_state = 0,
      simultaneous_actions = [],
      observations = [(''player_0'', [0]), (''player_1'', [0])],
      agent_selection = ''player_0''\<rparr>"

text \<open>
  The environments of a session on \<open>solo\<close>: after \<^verbatim>\<open>reset\<close>, after the step
  with action 0, and after the step with action 1 that reaches the terminal state.
\<close>

definition solo_start :: "(nat, nat list, nat) env" where
  "solo_start =
     \<lparr>np_random = 1,
      agents = [''player_0''],
      cumulative_rewards = [(''player_0'', 0)],
      rewards = [(''player_0'', 0)],
      terminations = [(''player_0'', False)],
      truncations = [(''player_0'', False)],
      infos = [(''player_0'', Some [1, 1])],
      game_length = 2,
      game_state = 1,
      simultaneous_actions = [],
      observations = [(''player_0'', [1])],
      agent_selection = ''player_0''\<rparr>"

definition solo_mid :: "(nat, nat list, nat) env" where
  "solo_mid =
     solo_start\<lparr>cumulative_rewards := [(''player_0'', 2)],
                game_length := 3,
                game_state := 2,
                observations := [(''player_0'', [2])]\<rparr>"

definition solo_end :: "(nat, nat list, nat) env" where
  "solo_end =
     solo_start\<lparr>cumulative_rewards := [(''player_0'', 3)],
                infos := [(''player_0'', Some [0, 0])],
                game_length := 4,
                game_state := 3,
                observations := [(''player_0'', [3])]\<rparr>"

text \<open>
  The environments of a session on \<open>duo\<close>: after \<^verbatim>\<open>reset\<close>, after the first
  move (at the simultaneous node), and after player 0 has submitted action 1 there.
\<close>

definition duo_start :: "(nat, nat list, nat) env" where
  "duo_start = turns_start\<lparr>infos := [(''player_0'', Some [1, 1]), (''player_1'', Some [1, 1])]\<rparr>"

definition duo_first :: "(nat, nat list, nat) env" where
  "duo_first =
     duo_start\<lparr>game_length := 2,
               game_state := 1,
               observations := [(''player_0'', [1]), (''player_1'', [1])]\<rparr>"

definition duo_second :: "(nat, nat list, nat) env" where
  "duo_second =
     duo_first\<lparr>simultaneous_actions := [(''player_0'', 1)],
               agent_selection := ''player_1''\<rparr>"

text \<open>What a caller sees of the turn: the selected agent and the agents left.\<close>

definition turn_view :: "(error + ('s, 'o, 'r) env) option \<Rightarrow> (error + string \<times> string list) option" where
  "turn_view res = map_option (map_sum id (\<lambda>st. (agent_selection st, agents st))) res"

definition end_view ::
  "('s, 'o, 'r) game \<Rightarrow> (error + ('s, 'o, 'r) env) option
     \<Rightarrow> (error + bool \<times> (string, bool) dict \<times> (string, bool) dict \<times> string list) option" where
  \<comment> \<open>is the state terminal, the two flags, the agents left\<close>
  "end_view g res =
     map_option (map_sum id
       (\<lambda>st. (is_terminal g (game_state st), terminations st, truncations st, agents st))) res"

text \<open>
  The binary vector of length \<open>n\<close> whose entry at an index is 1 exactly when the index
  is a legal action of player \<open>i\<close>.
\<close>

definition legal_mask :: "('s, 'o, 'r) game \<Rightarrow> 's \<Rightarrow> nat \<Rightarrow> nat \<Rightarrow> int list" where
  "legal_mask g gs i n = map (\<lambda>a. if int a \<in> set (legal_actions g gs i) then 1 else 0) [0..<n]"

text \<open>
  \<open>duo\<close> with a bound of one node: the session is truncated when it stands at the
  simultaneous node.
\<close>

definition duo_short :: "(nat, nat list, nat) game" where
  "duo_short = duo\<lparr>game_name := ''duo_short()'', max_game_length := 1\<rparr>"

text \<open>
  Two players and a die: player 0 moves, a chance node follows, then player 1 is to
  move; every player has legal actions at both decision nodes.
\<close>

definition dice :: "(nat, nat list, nat) game" where
  "dice =
     turns\<lparr>game_name := ''dice()'',
           is_chance_node := (\<lambda>s. s = 1),
           is_terminal := (\<lambda>s. 3 \<le> s),
           current_player := (\<lambda>s. if s = 0 then 0 else if s = 1 then - 1 else if s = 2 then 1 else - 4),
           chance_outcomes := (\<lambda>s. if s = 1 then [(0, 1 / 2), (1, 1 / 2)] else []),
           legal_actions := (\<lambda>s i. if s = 0 \<or> s = 2 then [0, 1] else [])\<rparr>"

text \<open>
  The flag stored for the selected agent:
  \<^verbatim>\<open>terminations[agent_selection] or truncations[agent_selection]\<close> as the call
  before has left the two dictionaries.
\<close>

definition flagged :: "('s, 'o, 'r) env \<Rightarrow> bool" where
  "flagged st =
     (map_of (terminations st) (agent_selection st) = Some True \<or>
      map_of (truncations st) (agent_selection st) = Some True)"

text \<open>The environment of \<open>solo\<close> when its agent has been retired.\<close>

definition solo_over :: "(nat, nat list, nat) env" where
  "solo_over = solo_end\<lparr>terminations := [(''player_0'', True)], agents := []\<rparr>"

text \<open>The environment of \<open>stuck\<close> when player 0 has been retired.\<close>

definition stuck_left :: "(nat, nat list, nat) env" where
  "stuck_left =
     turns_start\<lparr>agents := [''player_1''],
                 terminations := [(''player_0'', True), (''player_1'', True)],
                 infos := [(''player_0'', Some [0, 0]), (''player_1'', Some [1, 0])],
                 agent_selection := ''player_1''\<rparr>"

text \<open>The selected agent beside the player the simulator has to move.\<close>

definition mover_view ::
  "('s, 'o, 'r) game \<Rightarrow> (error + ('s, 'o, 'r) env) option \<Rightarrow> (error + string \<times> int) option" where
  "mover_view g res =
     map_option (map_sum id (\<lambda>st. (agent_selection st, current_player g (game_state st)))) res"

text \<open>
  Two players who move in turn, each with legal actions at both decision nodes, and
  the environment after the move of player 0.
\<close>

definition relay :: "(nat, nat list, nat) game" where
  "relay =
     turns\<lparr>game_name := ''relay()'',
           legal_actions := (\<lambda>s i. if s < 2 then [0, 1] else [])\<rparr>"

definition relay_first :: "(nat, nat list, nat) env" where
  "relay_first = duo_first\<lparr>agent_selection := ''player_1''\<rparr>"

section \<open>Auxiliary facts\<close>

lemma digit_char_inj: "a < 10 \<Longrightarrow> b < 10 \<Longrightarrow> digit_char a = digit_char b \<Longrightarrow> a = b"
proof -
  assume a: "a < 10" and b: "b < 10" and e: "digit_char a = digit_char b"
  have A: "a \<in> {0,1,2,3,4,5,6,7,8,9}" using a by auto
  have B: "b \<in> {0,1,2,3,4,5,6,7,8,9}" using b by auto
  show ?thesis using A B e by (auto simp: digit_char_def)
qed

lemma str_nonempty: "str n \<noteq> []"
  by (subst str.simps) simp

lemma str_inj: "str m = str n \<Longrightarrow> m = n"
proof (induction m arbitrary: n rule: str.induct)
  case (1 m)
  show ?case
  proof (cases "m < 10")
    case True
    note m = this
    show ?thesis
    proof (cases "n < 10")
      case True
      with m "1.prems" show ?thesis
        by (simp add: str.simps[of m] str.simps[of n] digit_char_inj)
    next
      case False
      with m "1.prems" show ?thesis
        using str_nonempty[of "n div 10"]
        by (simp add: str.simps[of m] str.simps[of n])
    qed
  next
    case False
    note m = this
    show ?thesis
    proof (cases "n < 10")
      case True
      with m "1.prems" show ?thesis
        using str_nonempty[of "m div 10"]
        by (simp add: str.simps[of m] str.simps[of n])
    next
      case False
      with m "1.prems" have e: "str (m div 10) = str (n div 10)"
        and d: "digit_char (m mod 10) = digit_char (n mod 10)"
        by (simp_all add: str.simps[of m] str.simps[of n])
      from "1.IH"[OF m e] have "m div 10 = n div 10" .
      moreover from d have "m mod 10 = n mod 10"
        by (intro digit_char_inj) simp_all
      ultimately show ?thesis
        by (metis div_mult_mod_eq)
    qed
  qed
qed

lemma player_name_inj: "player_name i = player_name j \<Longrightarrow> i = j"
  by (simp add: player_name_def str_inj)

lemma possible_agents_eq: "possible_agents g = map player_name [0..<num_players g]"
  by (simp add: possible_agents_def player_name_def)

lemma distinct_possible_agents: "distinct (possible_agents g)"
  by (auto simp: possible_agents_eq distinct_map intro!: inj_onI dest: player_name_inj)

lemma map_of_zip_map_inj:
  "inj f \<Longrightarrow> map_of (zip (map f xs) (map h xs)) (f x) = (if x \<in> set xs then Some (h x) else None)"
  by (induction xs) (auto dest: injD)

lemma id_name_lookup:
  "getitem (agent_id_name_mapping g) (int i) = (if i < num_players g then Inr (player_name i) else Inl KeyError)"
  unfolding getitem_def agent_id_name_mapping_def possible_agents_eq
  using map_of_zip_map_inj[of int "[0..<num_players g]" player_name i]
  by (simp add: inj_on_def)

lemma id_name_lookup_neg:
  "k < 0 \<Longrightarrow> getitem (agent_id_name_mapping g) k = Inl KeyError"
proof -
  assume k: "k < 0"
  have "k \<notin> set (map int [0..<num_players g])" using k by auto
  then have "map_of (agent_id_name_mapping g) k = None"
    unfolding agent_id_name_mapping_def possible_agents_eq
    by (metis (no_types, lifting) length_map map_fst_zip map_of_eq_None_iff set_map)
  then show ?thesis by (simp add: getitem_def)
qed

lemma id_name_lookup_Inr:
  "getitem (agent_id_name_mapping g) k = Inr name \<Longrightarrow>
     0 \<le> k \<and> nat k < num_players g \<and> name = player_name (nat k)"
proof -
  assume h: "getitem (agent_id_name_mapping g) k = Inr name"
  have k0: "0 \<le> k" using h id_name_lookup_neg[of k g] by (cases "k < 0") auto
  then have "k = int (nat k)" by simp
  with h id_name_lookup[of g "nat k"] show ?thesis
    by (auto split: if_splits)
qed

lemma name_id_lookup:
  "getitem (agent_name_id_mapping g) (player_name i) = (if i < num_players g then Inr i else Inl KeyError)"
  unfolding getitem_def agent_name_id_mapping_def possible_agents_eq
  using map_of_zip_map_inj[of player_name "[0..<num_players g]" "\<lambda>x. x" i]
  by (simp add: inj_on_def player_name_inj)

lemma map_of_foldl_update:
  "map_of (foldl (\<lambda>d a. AList.update a (f a) d) d0 xs) k =
     (if k \<in> set xs then Some (f k) else map_of d0 k)"
  by (induction xs arbitrary: d0) (auto simp: update_conv')

lemma map_of_dict_comp:
  "map_of (dict_comp f xs) k = (if k \<in> set xs then Some (f k) else None)"
  by (simp add: dict_comp_def map_of_foldl_update)

lemma getitem_dict_comp:
  "getitem (dict_comp f xs) k = (if k \<in> set xs then Inr (f k) else Inl KeyError)"
  by (simp add: getitem_def map_of_dict_comp)

lemma set_ones_length: "set_ones m as = Inr m' \<Longrightarrow> length m' = length m"
  by (induction as arbitrary: m) (auto simp: Let_def split: if_splits)

lemma wrap_index:
  fixes a n :: int and i :: nat
  assumes "0 \<le> (if a < 0 then a + n else a)" "(if a < 0 then a + n else a) < n" "int i < n"
  shows "(nat (if a < 0 then a + n else a) = i) = (int i = a \<or> int i - n = a)"
proof (cases "a < 0")
  case True
  with assms show ?thesis by simp linarith
next
  case False
  with assms show ?thesis by simp linarith
qed

lemma set_ones_nth:
  "set_ones m as = Inr m' \<Longrightarrow> i < length m \<Longrightarrow>
     m' ! i = (if int i \<in> set as \<or> int i - int (length m) \<in> set as then 1 else m ! i)"
proof (induction as arbitrary: m)
  case Nil
  then show ?case by simp
next
  case (Cons a as)
  define n where "n = int (length m)"
  define j where "j = (if a < 0 then a + n else a)"
  from Cons.prems(1) have r: "0 \<le> j" "j < n" and rec: "set_ones (m[nat j := 1]) as = Inr m'"
    unfolding j_def n_def by (simp_all add: Let_def split: if_splits)
  have i: "int i < n" using Cons.prems(2) by (simp add: n_def)
  have len: "length (m[nat j := 1]) = length m" by simp
  have step: "m' ! i = (if int i \<in> set as \<or> int i - n \<in> set as then 1 else (m[nat j := 1]) ! i)"
    using Cons.IH[OF rec] Cons.prems(2) unfolding n_def len by simp
  have jn: "nat j < length m" using r by (simp add: n_def nat_less_iff)
  have upd: "(m[nat j := 1]) ! i = (if nat j = i then 1 else m ! i)"
    using jn by (simp add: nth_list_update)
  have w: "(nat j = i) = (int i = a \<or> int i - n = a)"
    unfolding j_def using wrap_index[of a n i] r i unfolding j_def by simp
  show ?case
    unfolding n_def[symmetric] step upd w by auto
qed

lemma set_ones_nth_nonneg:
  "set_ones m as = Inr m' \<Longrightarrow> \<forall>a\<in>set as. 0 \<le> a \<Longrightarrow> i < length m \<Longrightarrow>
     m' ! i = (if int i \<in> set as then 1 else m ! i)"
  using set_ones_nth[of m as m' i] by auto

lemma action_masks_loop_result:
  "action_masks_loop g gs ids infs = Inr infs' \<Longrightarrow> distinct ids \<Longrightarrow>
     (\<forall>i\<in>set ids. i < num_players g \<and>
        (\<exists>n m. num_distinct_actions g = Inr n \<and>
           set_ones (replicate n 0) (legal_actions g gs i) = Inr m \<and>
           map_of infs' (player_name i) = Some (Some m))) \<and>
     (\<forall>k. k \<notin> player_name ` set ids \<longrightarrow> map_of infs' k = map_of infs k)"
proof (induction ids arbitrary: infs)
  case Nil
  then show ?case by simp
next
  case (Cons a ids)
  from Cons.prems(1) obtain n m where
    a: "a < num_players g" and n: "num_distinct_actions g = Inr n"
    and m: "set_ones (replicate n 0) (legal_actions g gs a) = Inr m"
    and rec: "action_masks_loop g gs ids (AList.update (player_name a) (Some m) infs) = Inr infs'"
    by (auto simp: id_name_lookup action_space_def split: if_splits sum.splits space.splits)
  from Cons.prems(2) have d: "distinct ids" and na: "a \<notin> set ids" by auto
  note IH = Cons.IH[OF rec d]
  have "player_name a \<notin> player_name ` set ids"
    using na by (auto dest: player_name_inj)
  with IH have "map_of infs' (player_name a) = Some (Some m)"
    by (simp add: update_conv')
  with IH a n m show ?case
    by (auto simp: update_conv')
qed

lemma observations_loop_result:
  "observations_loop g gs as d = Inr d' \<Longrightarrow>
     (\<forall>a\<in>set as. \<exists>i t. getitem (agent_name_id_mapping g) a = Inr i \<and>
         observation_tensor g gs i = Inr t \<and> map_of d' a = Some t) \<and>
     (\<forall>k. k \<notin> set as \<longrightarrow> map_of d' k = map_of d k)"
proof (induction as arbitrary: d)
  case Nil
  then show ?case by simp
next
  case (Cons a as)
  from Cons.prems obtain i t where
    i: "getitem (agent_name_id_mapping g) a = Inr i" and t: "observation_tensor g gs i = Inr t"
    and rec: "observations_loop g gs as (AList.update a t d) = Inr d'"
    by (auto split: sum.splits)
  note IH = Cons.IH[OF rec]
  have "map_of d' a = Some t"
  proof (cases "a \<in> set as")
    case True
    with IH i t show ?thesis by fastforce
  next
    case False
    with IH show ?thesis by (simp add: update_conv')
  qed
  with IH i t show ?case by (auto simp: update_conv')
qed

lemma rewards_loop_result:
  "rewards_loop g rs ids d = Inr d' \<Longrightarrow> distinct ids \<Longrightarrow>
     (\<forall>i\<in>set ids. i < num_players g \<and> i < length rs \<and> map_of d' (player_name i) = Some (rs ! i)) \<and>
     (\<forall>k. k \<notin> player_name ` set ids \<longrightarrow> map_of d' k = map_of d k)"
proof (induction ids arbitrary: d)
  case Nil
  then show ?case by simp
next
  case (Cons a ids)
  from Cons.prems(1) have
    a: "a < num_players g" and l: "a < length rs"
    and rec: "rewards_loop g rs ids (AList.update (player_name a) (rs ! a) d) = Inr d'"
    by (auto simp: id_name_lookup split: if_splits sum.splits)
  from Cons.prems(2) have d: "distinct ids" and na: "a \<notin> set ids" by auto
  note IH = Cons.IH[OF rec d]
  have "player_name a \<notin> player_name ` set ids"
    using na by (auto dest: player_name_inj)
  with IH have "map_of d' (player_name a) = Some (rs ! a)"
    by (simp add: update_conv')
  with IH a l show ?case
    by (auto simp: update_conv')
qed

lemma masks_check_result:
  "masks_check infs ags rest t = Inr t' \<Longrightarrow>
     (\<forall>a\<in>set rest. \<exists>m. map_of infs a = Some (Some m)) \<and>
     t' = (if \<exists>a\<in>set rest. zero_mask infs a then dict_comp (\<lambda>a. True) ags else t)"
proof (induction rest arbitrary: t)
  case Nil
  then show ?case by simp
next
  case (Cons a rest)
  from Cons.prems obtain m where m: "map_of infs a = Some (Some m)"
    and rec: "masks_check infs ags rest (if sum_list m = 0 then dict_comp (\<lambda>a. True) ags else t) = Inr t'"
    by (auto simp: getitem_def split: option.splits)
  from Cons.IH[OF rec] m show ?case
    by (auto simp: zero_mask_def)
qed

lemma masks_check_total:
  "\<forall>a\<in>set rest. \<exists>m. map_of infs a = Some (Some m) \<Longrightarrow> \<exists>t'. masks_check infs ags rest t = Inr t'"
  by (induction rest arbitrary: t) (auto simp: getitem_def)


lemma execute_chance_node_iter_aux:
  "execute_chance_node g st = Some res \<Longrightarrow>
     \<forall>st'. res = Inr st' \<longrightarrow>
       (\<exists>k. chance_iter g k st = Some (Inr st') \<and> \<not> is_chance_node g (game_state st'))"
proof (induction g st res rule: execute_chance_node.raw_induct[rotated, consumes 1, case_names step])
  case (step f g st res)
  show ?case
  proof (cases "is_chance_node g (game_state st)")
    case False
    with step(2) have "res = Inr st" by simp
    with False show ?thesis by (auto intro: exI[of _ 0])
  next
    case True
    show ?thesis
    proof (cases "chance_step g st")
      case (Inl e)
      with True step(2) show ?thesis by auto
    next
      case (Inr st1)
      with True step(2) have "f g st1 = Some res" by simp
      from step(1)[OF this] have H: "\<forall>st'. res = Inr st' \<longrightarrow>
       (\<exists>k. chance_iter g k st1 = Some (Inr st') \<and> \<not> is_chance_node g (game_state st'))" .
      show ?thesis
      proof (intro allI impI)
        fix st' assume "res = Inr st'"
        with H obtain k where "chance_iter g k st1 = Some (Inr st')" "\<not> is_chance_node g (game_state st')"
          by blast
        with True Inr have "chance_iter g (Suc k) st = Some (Inr st') \<and> \<not> is_chance_node g (game_state st')"
          by simp
        then show "\<exists>k. chance_iter g k st = Some (Inr st') \<and> \<not> is_chance_node g (game_state st')" ..
      qed
    qed
  qed
qed

lemma execute_chance_node_iter:
  "execute_chance_node g st = Some (Inr st') \<Longrightarrow>
     \<exists>k. chance_iter g k st = Some (Inr st') \<and> \<not> is_chance_node g (game_state st')"
  using execute_chance_node_iter_aux by blast

lemma chance_iter_returns:
  "chance_iter g k st = Some (Inr st') \<Longrightarrow> \<not> is_chance_node g (game_state st') \<Longrightarrow>
     execute_chance_node g st = Some (Inr st')"
proof (induction k arbitrary: st)
  case 0
  then show ?case by (simp add: execute_chance_node.simps)
next
  case (Suc k)
  from Suc.prems(1) have c: "is_chance_node g (game_state st)"
    by (simp split: if_splits)
  with Suc.prems(1) obtain st1 where s: "chance_step g st = Inr st1" and r: "chance_iter g k st1 = Some (Inr st')"
    by (auto split: sum.splits)
  from Suc.IH[OF r Suc.prems(2)] c s show ?case
    by (subst execute_chance_node.simps) simp
qed


lemma chance_step_fields:
  "chance_step g st = Inr st' \<Longrightarrow>
     st' = st\<lparr>game_length := game_length st + 1, np_random := np_random st',
             game_state := game_state st'\<rparr>"
  by (auto simp: chance_step_def Let_def split: if_splits prod.splits)

lemma chance_iter_fields:
  "chance_iter g k st = Some (Inr st') \<Longrightarrow>
     st' = st\<lparr>game_length := game_length st + int k, np_random := np_random st',
             game_state := game_state st'\<rparr>"
proof (induction k arbitrary: st)
  case 0
  then show ?case by simp
next
  case (Suc k)
  from Suc.prems obtain st1 where s: "chance_step g st = Inr st1" and r: "chance_iter g k st1 = Some (Inr st')"
    by (auto split: sum.splits if_splits)
  from chance_step_fields[OF s] have e1: "st1 = st\<lparr>game_length := game_length st + 1, np_random := np_random st1,
             game_state := game_state st1\<rparr>" .
  from Suc.IH[OF r] have e2: "st' = st1\<lparr>game_length := game_length st1 + int k, np_random := np_random st',
             game_state := game_state st'\<rparr>" .
  have "game_length st1 = game_length st + 1" by (subst e1) simp
  with e2 have "st' = st1\<lparr>game_length := game_length st + int (Suc k), np_random := np_random st',
             game_state := game_state st'\<rparr>" by (simp add: add.assoc)
  then show ?case by (subst (asm) e1) simp
qed


lemma end_routine_Inr:
  assumes "end_routine g st = Inr (b, st')"
  shows "(\<forall>a\<in>set (agents st). \<exists>m. map_of (infos st) a = Some (Some m))"
    and "agent_selection st \<in> set (agents st)"
    and "b = (terminated_flag g st \<or> truncated_flag g st)"
    and "st' = st\<lparr>terminations := dict_comp (\<lambda>a. terminated_flag g st) (agents st),
                  truncations := dict_comp (\<lambda>a. truncated_flag g st) (agents st),
                  agents := (if b then remove1 (agent_selection st) (agents st) else agents st),
                  agent_selection :=
                    (if b then (case remove1 (agent_selection st) (agents st) of
                                  [] \<Rightarrow> agent_selection st | a # as \<Rightarrow> a)
                     else agent_selection st)\<rparr>"
proof -
  let ?t1 = "if is_terminal g (game_state st) then dict_comp (\<lambda>a. True) (agents st)
             else dict_comp (\<lambda>a. False) (agents st)"
  let ?tr = "if game_length st > max_game_length g then dict_comp (\<lambda>a. True) (agents st)
             else dict_comp (\<lambda>a. False) (agents st)"
  from assms obtain t where mc: "masks_check (infos st) (agents st) (agents st) ?t1 = Inr t"
    by (auto simp: end_routine_def Let_def split: sum.splits)
  note R = masks_check_result[OF mc]
  from R show "\<forall>a\<in>set (agents st). \<exists>m. map_of (infos st) a = Some (Some m)" by simp
  have t: "t = dict_comp (\<lambda>a. terminated_flag g st) (agents st)"
    using R by (auto simp: terminated_flag_def)
  have tr: "?tr = dict_comp (\<lambda>a. truncated_flag g st) (agents st)"
    by (simp add: truncated_flag_def)
  from assms mc obtain x where gx: "getitem t (agent_selection st) = Inr x"
    by (auto simp: end_routine_def Let_def split: sum.splits)
  then show sel: "agent_selection st \<in> set (agents st)"
    unfolding t by (simp add: getitem_dict_comp split: if_splits)
  have x: "x = terminated_flag g st"
    using gx sel unfolding t by (simp add: getitem_dict_comp)
  have gtr: "getitem ?tr (agent_selection st) = Inr (truncated_flag g st)"
    unfolding tr using sel by (simp add: getitem_dict_comp)
  from assms mc gx gtr show "b = (terminated_flag g st \<or> truncated_flag g st)"
    unfolding end_routine_def Let_def x
    by (auto split: if_splits list.splits)
  from assms mc gx gtr sel show "st' = st\<lparr>terminations := dict_comp (\<lambda>a. terminated_flag g st) (agents st),
                  truncations := dict_comp (\<lambda>a. truncated_flag g st) (agents st),
                  agents := (if b then remove1 (agent_selection st) (agents st) else agents st),
                  agent_selection :=
                    (if b then (case remove1 (agent_selection st) (agents st) of
                                  [] \<Rightarrow> agent_selection st | a # as \<Rightarrow> a)
                     else agent_selection st)\<rparr>"
    unfolding end_routine_def Let_def x tr[symmetric] t[symmetric]
    by (auto split: if_splits list.splits)
qed


lemma end_routine_total:
  assumes "\<forall>a\<in>set (agents st). \<exists>m. map_of (infos st) a = Some (Some m)"
    and "agent_selection st \<in> set (agents st)"
  shows "\<exists>st'. end_routine g st = Inr (terminated_flag g st \<or> truncated_flag g st, st')"
proof -
  let ?t1 = "if is_terminal g (game_state st) then dict_comp (\<lambda>a. True) (agents st)
             else dict_comp (\<lambda>a. False) (agents st)"
  let ?tr = "if game_length st > max_game_length g then dict_comp (\<lambda>a. True) (agents st)
             else dict_comp (\<lambda>a. False) (agents st)"
  from masks_check_total[OF assms(1)] obtain t
    where mc: "masks_check (infos st) (agents st) (agents st) ?t1 = Inr t" by blast
  have t: "t = dict_comp (\<lambda>a. terminated_flag g st) (agents st)"
    using masks_check_result[OF mc] by (auto simp: terminated_flag_def)
  have gx: "getitem t (agent_selection st) = Inr (terminated_flag g st)"
    unfolding t using assms(2) by (simp add: getitem_dict_comp)
  have gtr: "getitem ?tr (agent_selection st) = Inr (truncated_flag g st)"
    using assms(2) by (simp add: getitem_dict_comp truncated_flag_def)
  show ?thesis
    unfolding end_routine_def Let_def mc using gx gtr assms(2)
    by (auto split: list.splits)
qed



lemma find_None_set: "(find P xs = None) = (\<not> (\<exists>x\<in>set xs. P x))"
  by (induction xs) auto

lemma find_Some_set: "find P xs = Some x \<Longrightarrow> x \<in> set xs \<and> P x"
  by (induction xs) (auto split: if_splits)

lemma execute_action_node_pending:
  assumes "is_simultaneous_node g (game_state st)" and "pending g st action"
  shows "\<exists>st'. execute_action_node g st action = Inr st' \<and>
      cumulative_rewards st' = AList.update (agent_selection st) 0 (cumulative_rewards st) \<and>
      game_state st' = game_state st \<and> game_length st' = game_length st \<and>
      simultaneous_actions st' =
        AList.update (agent_selection st) action (simultaneous_actions st) \<and>
      agent_selection st' \<in> set (agents st) \<and>
      agent_selection st' \<notin> set (map fst (simultaneous_actions st'))"
proof (cases "find (\<lambda>agent. agent \<notin> set (map fst (AList.update (agent_selection st) action (simultaneous_actions st)))) (agents st)")
  case None
  then have "\<not> pending g st action"
    by (simp add: pending_def find_None_set)
  with assms(2) show ?thesis by simp
next
  case (Some a)
  from find_Some_set[OF Some] have a: "a \<in> set (agents st)"
    "a \<notin> set (map fst (AList.update (agent_selection st) action (simultaneous_actions st)))"
    by simp_all
  from Some assms(1) a show ?thesis
    by (simp add: execute_action_node_def Let_def)
qed

lemma execute_action_node_collected:
  assumes "is_simultaneous_node g (game_state st)" and "\<not> pending g st action"
  shows "execute_action_node g st action = Inl TypeError"
proof -
  from assms have "find (\<lambda>agent. agent \<notin> set (map fst (AList.update (agent_selection st) action (simultaneous_actions st)))) (agents st) = None"
    by (simp add: pending_def find_None_set)
  with assms(1) show ?thesis
    by (simp add: execute_action_node_def Let_def)
qed

lemma execute_action_node_Inr_pending:
  assumes "is_simultaneous_node g (game_state st)" and "execute_action_node g st action = Inr st'"
  shows "pending g st action"
  using execute_action_node_collected[OF assms(1), of action] assms(2) by auto

lemma execute_action_node_turn:
  assumes "\<not> is_simultaneous_node g (game_state st)"
    and "execute_action_node g st action = Inr st'"
  shows "game_state st' = apply_action g (game_state st) action"
    and "game_length st' = game_length st + 1"
    and "simultaneous_actions st' = simultaneous_actions st"
    and "cumulative_rewards st' = cumulative_rewards st"
    and "if 0 \<le> current_player g (game_state st')
         then getitem (agent_id_name_mapping g) (current_player g (game_state st')) = Inr (agent_selection st')
         else agent_selection st' = hd (agents st) \<and> agents st \<noteq> []"
  using assms
  by (auto simp: execute_action_node_def Let_def split: if_splits sum.splits list.splits)

lemma execute_action_node_frame:
  assumes "execute_action_node g st action = Inr st'"
  shows "agents st' = agents st" "infos st' = infos st" "terminations st' = terminations st"
    "truncations st' = truncations st" "observations st' = observations st"
    "rewards st' = rewards st" "np_random st' = np_random st"
  using assms
  by (auto simp: execute_action_node_def Let_def split: if_splits sum.splits list.splits option.splits)

lemma execute_action_node_length:
  assumes "execute_action_node g st action = Inr st'"
  shows "game_length st' = (if pending g st action then game_length st else game_length st + 1)"
    and "game_state st' =
           (if pending g st action then game_state st else apply_action g (game_state st) action)"
proof -
  have "game_length st' = (if pending g st action then game_length st else game_length st + 1) \<and>
        game_state st' =
           (if pending g st action then game_state st else apply_action g (game_state st) action)"
  proof (cases "is_simultaneous_node g (game_state st)")
    case True
    from execute_action_node_Inr_pending[OF True assms] have p: "pending g st action" .
    from execute_action_node_pending[OF True p] assms p show ?thesis by auto
  next
    case False
    with execute_action_node_turn(1,2)[OF False assms] show ?thesis
      by (simp add: pending_def)
  qed
  then show "game_length st' = (if pending g st action then game_length st else game_length st + 1)"
    and "game_state st' =
           (if pending g st action then game_state st else apply_action g (game_state st) action)"
    by simp_all
qed

lemma update_observations_Inr:
  assumes "update_observations g st = Inr st'"
  shows "st' = st\<lparr>observations := observations st'\<rparr>"
    and "\<forall>a\<in>set (agents st). \<exists>i t. getitem (agent_name_id_mapping g) a = Inr i \<and>
           observation_tensor g (game_state st) i = Inr t \<and> map_of (observations st') a = Some t"
proof -
  from assms obtain d where d: "observations_loop g (game_state st) (agents st) [] = Inr d"
    and s: "st' = st\<lparr>observations := d\<rparr>"
    by (auto simp: update_observations_def split: sum.splits)
  from s show "st' = st\<lparr>observations := observations st'\<rparr>" by simp
  from observations_loop_result[OF d] s
  show "\<forall>a\<in>set (agents st). \<exists>i t. getitem (agent_name_id_mapping g) a = Inr i \<and>
           observation_tensor g (game_state st) i = Inr t \<and> map_of (observations st') a = Some t"
    by simp
qed

lemma update_action_masks_Inr:
  assumes "update_action_masks g st = Inr st'"
  shows "st' = st\<lparr>infos := infos st'\<rparr>"
    and "\<forall>i<num_players g. \<exists>n m. num_distinct_actions g = Inr n \<and>
           set_ones (replicate n 0) (legal_actions g (game_state st) i) = Inr m \<and>
           map_of (infos st') (player_name i) = Some (Some m)"
proof -
  from assms obtain d where d: "action_masks_loop g (game_state st) [0..<num_players g] (infos st) = Inr d"
    and s: "st' = st\<lparr>infos := d\<rparr>"
    by (auto simp: update_action_masks_def split: sum.splits)
  from s show "st' = st\<lparr>infos := infos st'\<rparr>" by simp
  from action_masks_loop_result[OF d] s
  show "\<forall>i<num_players g. \<exists>n m. num_distinct_actions g = Inr n \<and>
           set_ones (replicate n 0) (legal_actions g (game_state st) i) = Inr m \<and>
           map_of (infos st') (player_name i) = Some (Some m)"
    by simp
qed

lemma update_rewards_Inr:
  assumes "update_rewards g st = Inr st'"
  shows "st' = st\<lparr>cumulative_rewards := cumulative_rewards st'\<rparr>"
    and "\<forall>i<num_players g. i < length (state_rewards g (game_state st)) \<and>
           map_of (cumulative_rewards st') (player_name i) = Some (state_rewards g (game_state st) ! i)"
proof -
  from assms obtain d where d: "rewards_loop g (state_rewards g (game_state st)) [0..<num_players g] [] = Inr d"
    and s: "st' = st\<lparr>cumulative_rewards := d\<rparr>"
    by (auto simp: update_rewards_def split: sum.splits)
  from s show "st' = st\<lparr>cumulative_rewards := cumulative_rewards st'\<rparr>" by simp
  from rewards_loop_result[OF d] s
  show "\<forall>i<num_players g. i < length (state_rewards g (game_state st)) \<and>
           map_of (cumulative_rewards st') (player_name i) = Some (state_rewards g (game_state st) ! i)"
    by simp
qed

lemma updates_Inr:
  assumes "updates g st = Inr st'"
  shows "\<exists>st1 st2. update_observations g st = Inr st1 \<and> update_action_masks g st1 = Inr st2 \<and>
           update_rewards g st2 = Inr st'"
  using assms by (auto simp: updates_def split: sum.splits)

lemma step_full:
  assumes "end_routine g st = Inr (False, st1)" and "step g st action = Some (Inr st')"
  shows "\<exists>st2 st3. execute_action_node g st1 action = Inr st2 \<and>
           execute_chance_node g st2 = Some (Inr st3) \<and> updates g st3 = Inr st'"
  using assms by (auto simp: step_def split: sum.splits option.splits)

lemma step_early:
  assumes "end_routine g st = Inr (True, st1)"
  shows "step g st action = Some (Inr st1)"
  using assms by (simp add: step_def)

lemma step_Inr_cases:
  assumes "step g st action = Some (Inr st')"
  shows "\<exists>b st1. end_routine g st = Inr (b, st1)"
  using assms by (auto simp: step_def split: sum.splits)

lemma reset_Inr:
  assumes "reset g r = Some (Inr st)"
  shows "\<exists>st1 st2 st3 name. execute_chance_node g (reset_fields g r) = Some (Inr st1) \<and>
           update_observations g st1 = Inr st2 \<and> update_action_masks g st2 = Inr st3 \<and>
           getitem (agent_id_name_mapping g) (current_player g (game_state st3)) = Inr name \<and>
           st = st3\<lparr>agent_selection := name\<rparr>"
  using assms by (auto simp: reset_def split: sum.splits option.splits)



lemma solo_session:
  "reset solo 0 = Some (Inr solo_start)"
  "step solo solo_start 0 = Some (Inr solo_mid)"
  "step solo solo_mid 1 = Some (Inr solo_end)"
  "end_routine solo solo_start = Inr (False, solo_start)"
  "end_routine solo solo_mid = Inr (False, solo_mid)"
  by code_simp+

lemma duo_session:
  "reset duo 0 = Some (Inr duo_start)"
  "step duo duo_start 0 = Some (Inr duo_first)"
  "step duo duo_first 1 = Some (Inr duo_second)"
  "end_routine duo duo_start = Inr (False, duo_start)"
  "end_routine duo duo_first = Inr (False, duo_first)"
  "end_routine duo duo_second = Inr (False, duo_second)"
  by code_simp+

lemma turns_end_routine:
  "end_routine turns turns_start =
     Inr (True, turns_start\<lparr>terminations := [(''player_0'', True), (''player_1'', True)],
                            agents := [''player_1''], agent_selection := ''player_1''\<rparr>)"
  by code_simp

lemma pending_flags [simp]:
  "pending g (st\<lparr>terminations := t, truncations := u\<rparr>) action = pending g st action"
  by (simp add: pending_def)

lemma chance_frame:
  assumes "execute_chance_node g st = Some (Inr st')"
  shows "agents st' = agents st" "infos st' = infos st" "terminations st' = terminations st"
    "truncations st' = truncations st" "observations st' = observations st"
    "rewards st' = rewards st" "cumulative_rewards st' = cumulative_rewards st"
    "simultaneous_actions st' = simultaneous_actions st" "agent_selection st' = agent_selection st"
proof -
  from execute_chance_node_iter[OF assms] obtain k where "chance_iter g k st = Some (Inr st')"
    by blast
  note f = chance_iter_fields[OF this]
  show "agents st' = agents st" by (subst f) simp
  show "infos st' = infos st" by (subst f) simp
  show "terminations st' = terminations st" by (subst f) simp
  show "truncations st' = truncations st" by (subst f) simp
  show "observations st' = observations st" by (subst f) simp
  show "rewards st' = rewards st" by (subst f) simp
  show "cumulative_rewards st' = cumulative_rewards st" by (subst f) simp
  show "simultaneous_actions st' = simultaneous_actions st" by (subst f) simp
  show "agent_selection st' = agent_selection st" by (subst f) simp
qed

lemma updates_frame:
  assumes "updates g st = Inr st'"
  shows "game_state st' = game_state st" "game_length st' = game_length st"
    "agents st' = agents st" "terminations st' = terminations st"
    "truncations st' = truncations st" "rewards st' = rewards st"
    "simultaneous_actions st' = simultaneous_actions st"
    "agent_selection st' = agent_selection st" "np_random st' = np_random st"
proof -
  from updates_Inr[OF assms] obtain st1 st2 where
    1: "update_observations g st = Inr st1" and 2: "update_action_masks g st1 = Inr st2"
    and 3: "update_rewards g st2 = Inr st'" by blast
  note a = update_observations_Inr(1)[OF 1] and b = update_action_masks_Inr(1)[OF 2]
    and c = update_rewards_Inr(1)[OF 3]
  have e: "st' = st\<lparr>observations := observations st1, infos := infos st2,
                    cumulative_rewards := cumulative_rewards st'\<rparr>"
    by (subst c, subst b, subst a) simp
  show "game_state st' = game_state st" by (subst e) simp
  show "game_length st' = game_length st" by (subst e) simp
  show "agents st' = agents st" by (subst e) simp
  show "terminations st' = terminations st" by (subst e) simp
  show "truncations st' = truncations st" by (subst e) simp
  show "rewards st' = rewards st" by (subst e) simp
  show "simultaneous_actions st' = simultaneous_actions st" by (subst e) simp
  show "agent_selection st' = agent_selection st" by (subst e) simp
  show "np_random st' = np_random st" by (subst e) simp
qed

lemma end_routine_False:
  assumes "end_routine g st = Inr (False, st1)"
  shows "st1 = st\<lparr>terminations := dict_comp (\<lambda>a. False) (agents st),
                  truncations := dict_comp (\<lambda>a. False) (agents st)\<rparr>"
    and "\<not> terminated_flag g st" and "\<not> truncated_flag g st"
proof -
  from end_routine_Inr(3)[OF assms] show f: "\<not> terminated_flag g st" and t: "\<not> truncated_flag g st"
    by simp_all
  from end_routine_Inr(4)[OF assms] f t
  show "st1 = st\<lparr>terminations := dict_comp (\<lambda>a. False) (agents st),
                  truncations := dict_comp (\<lambda>a. False) (agents st)\<rparr>"
    by simp
qed


lemma chance_iter_length:
  "chance_iter g k st = Some (Inr st') \<Longrightarrow> game_length st' = game_length st + int k"
  by (subst chance_iter_fields[of g k st st']) simp_all

lemma end_routine_flags:
  assumes "end_routine g st = Inr (b, st')"
  shows "terminations st' = dict_comp (\<lambda>a. terminated_flag g st) (agents st)"
    and "truncations st' = dict_comp (\<lambda>a. truncated_flag g st) (agents st)"
    and "game_length st' = game_length st" and "game_state st' = game_state st"
    and "agents st' = (if b then remove1 (agent_selection st) (agents st) else agents st)"
proof -
  note f = end_routine_Inr(4)[OF assms]
  show "terminations st' = dict_comp (\<lambda>a. terminated_flag g st) (agents st)" by (subst f) simp
  show "truncations st' = dict_comp (\<lambda>a. truncated_flag g st) (agents st)" by (subst f) simp
  show "game_length st' = game_length st" by (subst f) simp
  show "game_state st' = game_state st" by (subst f) simp
  show "agents st' = (if b then remove1 (agent_selection st) (agents st) else agents st)"
    by (subst f) simp
qed

lemma reset_fields_simps:
  "game_length (reset_fields g r) = 1" "agents (reset_fields g r) = possible_agents g"
  "game_state (reset_fields g r) = new_initial_state g"
  by (simp_all add: reset_fields_def)

lemma execute_chance_node_not_chance:
  "\<not> is_chance_node g (game_state st) \<Longrightarrow> execute_chance_node g st = Some (Inr st)"
  by (subst execute_chance_node.simps) simp


section \<open>Errors of the simulator\<close>

lemma observations_loop_NotImplemented:
  "set as \<subseteq> set (possible_agents g) \<Longrightarrow>
     (\<exists>m. observations_loop g gs as d = Inl (NotImplementedError m)) =
     (\<exists>i e. i < num_players g \<and> player_name i \<in> set as \<and> observation_tensor g gs i = Inl e)"
proof (induction as arbitrary: d)
  case Nil
  then show ?case by simp
next
  case (Cons a as)
  from Cons.prems obtain i0 where i0: "i0 < num_players g" and a: "a = player_name i0"
    by (auto simp: possible_agents_eq)
  have sub: "set as \<subseteq> set (possible_agents g)" using Cons.prems by simp
  show ?case
  proof (cases "observation_tensor g gs i0")
    case (Inl e)
    then have "observations_loop g gs (a # as) d = Inl (translate g e)"
      using i0 a by (simp add: name_id_lookup)
    with Inl i0 a show ?thesis
      by (auto simp: translate_def)
  next
    case (Inr t)
    then have eq: "observations_loop g gs (a # as) d = observations_loop g gs as (AList.update a t d)"
      using i0 a by (simp add: name_id_lookup)
    have "(\<exists>i e. i < num_players g \<and> player_name i \<in> set (a # as) \<and> observation_tensor g gs i = Inl e) =
          (\<exists>i e. i < num_players g \<and> player_name i \<in> set as \<and> observation_tensor g gs i = Inl e)"
      using Inr a by (auto dest: player_name_inj)
    with eq Cons.IH[OF sub] show ?thesis by simp
  qed
qed

lemma observations_loop_no_SpielError:
  "observations_loop g gs as d \<noteq> Inl (SpielError m)"
  by (induction as arbitrary: d) (auto simp: getitem_def translate_def split: option.splits sum.splits)

text \<open>
  C10. \<^verbatim>\<open>observation_space\<close>, \<^verbatim>\<open>action_space\<close> and
  \<^verbatim>\<open>_update_observations\<close> raise \<^verbatim>\<open>NotImplementedError\<close> exactly when
  the simulator raises \<^verbatim>\<open>SpielError\<close> for the tensor shape, for the number of
  distinct actions, or for the observation tensor of one of the agents; none of
  them lets a \<^verbatim>\<open>SpielError\<close> through; \<^verbatim>\<open>render\<close> always raises
  \<^verbatim>\<open>NotImplementedError\<close>. The agents of the environment are names of
  players of the game, as \<^verbatim>\<open>reset\<close> sets them.
\<close>

theorem simulator_errors_translated:
  "((\<exists>m. observation_space g agent = Inl (NotImplementedError m)) =
      (\<exists>e. observation_tensor_shape g = Inl e)) \<and>
   (\<forall>m. observation_space g agent \<noteq> Inl (SpielError m)) \<and>
   ((\<exists>m. action_space g agent = Inl (NotImplementedError m)) =
      (\<exists>e. num_distinct_actions g = Inl e)) \<and>
   (\<forall>m. action_space g agent \<noteq> Inl (SpielError m)) \<and>
   (set (agents st) \<subseteq> set (possible_agents g) \<longrightarrow>
      ((\<exists>m. update_observations g st = Inl (NotImplementedError m)) =
         (\<exists>i e. i < num_players g \<and> player_name i \<in> set (agents st) \<and>
                observation_tensor g (game_state st) i = Inl e))) \<and>
   (\<forall>m. update_observations g st \<noteq> Inl (SpielError m)) \<and>
   (\<exists>m. render g = Inl (NotImplementedError m))"
proof -
  have os: "(\<exists>m. observation_space g agent = Inl (NotImplementedError m)) =
      (\<exists>e. observation_tensor_shape g = Inl e)"
    by (cases "observation_tensor_shape g") (simp_all add: observation_space_def translate_def)
  have os': "\<forall>m. observation_space g agent \<noteq> Inl (SpielError m)"
    by (cases "observation_tensor_shape g") (simp_all add: observation_space_def translate_def)
  have as: "(\<exists>m. action_space g agent = Inl (NotImplementedError m)) =
      (\<exists>e. num_distinct_actions g = Inl e)"
    by (cases "num_distinct_actions g") (simp_all add: action_space_def translate_def)
  have as': "\<forall>m. action_space g agent \<noteq> Inl (SpielError m)"
    by (cases "num_distinct_actions g") (simp_all add: action_space_def translate_def)
  have uo: "set (agents st) \<subseteq> set (possible_agents g) \<longrightarrow>
      ((\<exists>m. update_observations g st = Inl (NotImplementedError m)) =
         (\<exists>i e. i < num_players g \<and> player_name i \<in> set (agents st) \<and>
                observation_tensor g (game_state st) i = Inl e))"
  proof
    assume sub: "set (agents st) \<subseteq> set (possible_agents g)"
    have "(\<exists>m. update_observations g st = Inl (NotImplementedError m)) =
          (\<exists>m. observations_loop g (game_state st) (agents st) [] = Inl (NotImplementedError m))"
      by (cases "observations_loop g (game_state st) (agents st) []")
         (simp_all add: update_observations_def)
    with observations_loop_NotImplemented[OF sub, of "game_state st" "[]"]
    show "(\<exists>m. update_observations g st = Inl (NotImplementedError m)) =
         (\<exists>i e. i < num_players g \<and> player_name i \<in> set (agents st) \<and>
                observation_tensor g (game_state st) i = Inl e)"
      by simp
  qed
  have uo': "\<forall>m. update_observations g st \<noteq> Inl (SpielError m)"
    using observations_loop_no_SpielError[of g "game_state st" "agents st" "[]"]
    by (cases "observations_loop g (game_state st) (agents st) []")
       (auto simp: update_observations_def)
  have r: "\<exists>m. render g = Inl (NotImplementedError m)"
    by (simp add: render_def)
  from os os' as as' uo uo' r show ?thesis by blast
qed

theorem simulator_errors_translated_witness:
  "set (agents (reset_fields blind 0)) \<subseteq> set (possible_agents blind) \<and>
   (\<exists>m. update_observations blind (reset_fields blind 0) = Inl (NotImplementedError m)) \<and>
   (\<exists>m. observation_space blind ''player_0'' = Inl (NotImplementedError m)) \<and>
   (\<exists>m. action_space blind ''player_0'' = Inl (NotImplementedError m))"
proof -
  have h: "set (agents (reset_fields blind 0)) \<subseteq> set (possible_agents blind)"
    by (simp add: reset_fields_def)
  have n: "player_name 0 = ''player_0''"
    by code_simp
  have p: "possible_agents blind = [''player_0'']"
    by code_simp
  have r: "\<exists>i e. i < num_players blind \<and> player_name i \<in> set (agents (reset_fields blind 0)) \<and>
             observation_tensor blind (game_state (reset_fields blind 0)) i = Inl e"
    by (rule exI[of _ 0]) (simp add: n p reset_fields_def, simp add: blind_def solo_def)
  have s: "\<exists>e. observation_tensor_shape blind = Inl e" "\<exists>e. num_distinct_actions blind = Inl e"
    by (simp_all add: blind_def solo_def)
  from simulator_errors_translated[of blind "''player_0''" "reset_fields blind 0"] h r s
  show ?thesis by blast
qed

section \<open>The end routine\<close>

lemma turns_start_reset: "reset turns 0 = Some (Inr turns_start)"
  by code_simp

lemma sum_list_zeros: "\<forall>x\<in>set m. x = 0 \<Longrightarrow> sum_list m = (0::int)"
  by (induction m) auto


text \<open>
  C9. When the action mask of one of the agents in \<^verbatim>\<open>self.agents\<close> is all
  zeros, the end routine sets \<^verbatim>\<open>terminations[a]\<close> to \<^verbatim>\<open>True\<close> for every
  agent, whether or not the simulator state is terminal and whatever the masks of
  the other agents are. (The routine reads the masks of the agents in
  \<^verbatim>\<open>self.agents\<close>; it returns when each of them has a mask and the selected
  agent is one of them.)
\<close>

theorem zero_mask_terminates_all:
  assumes "\<forall>a\<in>set (agents st). \<exists>m. map_of (infos st) a = Some (Some m)"
    and "agent_selection st \<in> set (agents st)"
    and "a \<in> set (agents st)"
    and "map_of (infos st) a = Some (Some m)"
    and "\<forall>x\<in>set m. x = 0"
  shows "\<exists>st'. end_routine g st = Inr (True, st') \<and>
           (\<forall>a'\<in>set (agents st). map_of (terminations st') a' = Some True)"
proof -
  have "zero_mask (infos st) a"
    using assms(4,5) by (simp add: zero_mask_def sum_list_zeros)
  with assms(3) have f: "terminated_flag g st"
    by (auto simp: terminated_flag_def)
  from end_routine_total[OF assms(1,2), of g] f obtain st'
    where e: "end_routine g st = Inr (True, st')" by auto
  note r = end_routine_Inr(4)[OF e]
  have "terminations st' = dict_comp (\<lambda>a. terminated_flag g st) (agents st)"
    by (subst r) simp
  with f have "terminations st' = dict_comp (\<lambda>a. True) (agents st)"
    by simp
  then have "\<forall>a'\<in>set (agents st). map_of (terminations st') a' = Some True"
    by (simp add: map_of_dict_comp)
  with e show ?thesis by blast
qed

theorem zero_mask_terminates_all_witness:
  "agent_selection turns_start \<in> set (agents turns_start) \<and>
   ''player_1'' \<in> set (agents turns_start) \<and>
   map_of (infos turns_start) ''player_1'' = Some (Some [0, 0]) \<and>
   \<not> is_terminal turns (game_state turns_start) \<and>
   \<not> zero_mask (infos turns_start) ''player_0'' \<and>
   (\<exists>st'. end_routine turns turns_start = Inr (True, st') \<and>
      (\<forall>a'\<in>set (agents turns_start). map_of (terminations st') a' = Some True))"
proof -
  have 1: "\<forall>a\<in>set (agents turns_start). \<exists>m. map_of (infos turns_start) a = Some (Some m)"
    by (simp add: turns_start_def)
  have 2: "agent_selection turns_start \<in> set (agents turns_start)"
    by (simp add: turns_start_def)
  have 3: "''player_1'' \<in> set (agents turns_start)"
    by (simp add: turns_start_def)
  have 4: "map_of (infos turns_start) ''player_1'' = Some (Some [0, 0])"
    by (simp add: turns_start_def)
  have 5: "\<forall>x\<in>set [0, 0::int]. x = 0"
    by simp
  have 6: "\<not> is_terminal turns (game_state turns_start)"
    by (simp add: turns_start_def turns_def)
  have 7: "\<not> zero_mask (infos turns_start) ''player_0''"
    by (simp add: turns_start_def zero_mask_def)
  note 8 = zero_mask_terminates_all[OF 1 2 3 4 5, of turns]
  show ?thesis
    by (intro conjI) (rule 2 3 4 6 7 8)+
qed


text \<open>
  C8, as the claim states it, fails: the flag stored for the selected agent when
  \<^verbatim>\<open>step\<close> is called does not decide what the call does. On \<open>solo\<close>, when the
  only agent has been retired, the selected agent is still flagged terminated, and
  \<^verbatim>\<open>step\<close> raises \<^verbatim>\<open>KeyError\<close>. On \<open>stuck\<close>, when player 0 has been
  retired, player 1 is selected and flagged terminated, and \<^verbatim>\<open>step\<close> applies its
  action and advances the simulator state.
\<close>

theorem stored_flag_not_decisive:
  "run solo 0 [0, 1, 0] = Some (Inr solo_over) \<and>
   flagged solo_over \<and>
   step solo solo_over 0 = Some (Inl KeyError) \<and>
   run stuck 0 [0] = Some (Inr stuck_left) \<and>
   flagged stuck_left \<and>
   game_state stuck_left = 0 \<and>
   map_option (map_sum id game_state) (step stuck stuck_left 0) = Some (Inr 1)"
  by code_simp

text \<open>
  C8, amended. \<^verbatim>\<open>step\<close> starts with the end routine, which sets both flags anew
  from the simulator state, the node counter and the action masks. When the selected
  agent is in \<^verbatim>\<open>self.agents\<close>, every agent there has an action mask, and the end
  routine finds the selected agent terminated or truncated (the state is terminal,
  an agent of \<^verbatim>\<open>self.agents\<close> has a mask of zeros, or \<^verbatim>\<open>game_length\<close> exceeds
  \<^verbatim>\<open>max_game_length()\<close>), the call returns at once: that one agent leaves
  \<^verbatim>\<open>self.agents\<close>, the first agent left (if any) is selected, the action is
  ignored, and the simulator state, the node counter, the observations, the rewards
  and the action masks stay as they were.
\<close>

theorem retire_only:
  assumes "\<forall>a\<in>set (agents st). \<exists>m. map_of (infos st) a = Some (Some m)"
    and "agent_selection st \<in> set (agents st)"
    and "terminated_flag g st \<or> truncated_flag g st"
  shows "\<exists>st'. step g st action = Some (Inr st') \<and>
           agents st' = remove1 (agent_selection st) (agents st) \<and>
           agent_selection st' = (case agents st' of [] \<Rightarrow> agent_selection st | a # as \<Rightarrow> a) \<and>
           game_state st' = game_state st \<and>
           game_length st' = game_length st \<and>
           observations st' = observations st \<and>
           rewards st' = rewards st \<and>
           cumulative_rewards st' = cumulative_rewards st \<and>
           infos st' = infos st \<and>
           simultaneous_actions st' = simultaneous_actions st \<and>
           np_random st' = np_random st \<and>
           step g st other = step g st action"
proof -
  from end_routine_total[OF assms(1,2), of g] assms(3) obtain st'
    where e: "end_routine g st = Inr (True, st')" by auto
  have s: "step g st action = Some (Inr st')" "step g st other = Some (Inr st')"
    using e by (simp_all add: step_def)
  note f = end_routine_Inr(4)[OF e]
  have "agents st' = remove1 (agent_selection st) (agents st)"
    by (subst f) simp
  moreover have "agent_selection st' =
      (case remove1 (agent_selection st) (agents st) of [] \<Rightarrow> agent_selection st | a # as \<Rightarrow> a)"
    by (subst f) simp
  moreover have "game_state st' = game_state st" by (subst f) simp
  moreover have "game_length st' = game_length st" by (subst f) simp
  moreover have "observations st' = observations st" by (subst f) simp
  moreover have "rewards st' = rewards st" by (subst f) simp
  moreover have "cumulative_rewards st' = cumulative_rewards st" by (subst f) simp
  moreover have "infos st' = infos st" by (subst f) simp
  moreover have "simultaneous_actions st' = simultaneous_actions st" by (subst f) simp
  moreover have "np_random st' = np_random st" by (subst f) simp
  ultimately show ?thesis using s by simp
qed

theorem retire_only_witness:
  "agent_selection turns_start \<in> set (agents turns_start) \<and>
   (terminated_flag turns turns_start \<or> truncated_flag turns turns_start) \<and>
   (\<exists>st'. step turns turns_start 0 = Some (Inr st') \<and>
           agents st' = remove1 (agent_selection turns_start) (agents turns_start) \<and>
           agent_selection st' =
             (case agents st' of [] \<Rightarrow> agent_selection turns_start | a # as \<Rightarrow> a) \<and>
           game_state st' = game_state turns_start \<and>
           game_length st' = game_length turns_start \<and>
           observations st' = observations turns_start \<and>
           rewards st' = rewards turns_start \<and>
           cumulative_rewards st' = cumulative_rewards turns_start \<and>
           infos st' = infos turns_start \<and>
           simultaneous_actions st' = simultaneous_actions turns_start \<and>
           np_random st' = np_random turns_start \<and>
           step turns turns_start 1 = step turns turns_start 0)"
proof -
  have 1: "\<forall>a\<in>set (agents turns_start). \<exists>m. map_of (infos turns_start) a = Some (Some m)"
    by (simp add: turns_start_def)
  have 2: "agent_selection turns_start \<in> set (agents turns_start)"
    by (simp add: turns_start_def)
  have 3: "terminated_flag turns turns_start \<or> truncated_flag turns turns_start"
    by (simp add: terminated_flag_def turns_start_def zero_mask_def)
  note 4 = retire_only[OF 1 2 3, of 0 1]
  show ?thesis
    by (intro conjI) (rule 2 3 4)+
qed

section \<open>Simultaneous nodes\<close>

text \<open>
  C2, as the claim states it, fails. On \<open>duo_short\<close> the step taken at the
  simultaneous node is truncated: the end routine retires the selected agent and the
  action is not stored. On \<open>duo\<close>, when player 1 submits the last missing action,
  the call of \<^verbatim>\<open>apply_action\<close> with the values of the holder raises
  \<^verbatim>\<open>TypeError\<close>: the simulator state is not advanced and the holder is not
  emptied.
\<close>

theorem simultaneous_step_not_collected:
  "run duo_short 0 [0] = Some (Inr duo_first) \<and>
   is_simultaneous_node duo_short (game_state duo_first) \<and>
   map_option (map_sum id simultaneous_actions) (step duo_short duo_first 1) = Some (Inr []) \<and>
   run duo 0 [0, 1] = Some (Inr duo_second) \<and>
   is_simultaneous_node duo (game_state duo_second) \<and>
   \<not> pending duo duo_second 0 \<and>
   execute_action_node duo duo_second 0 = Inl TypeError \<and>
   step duo duo_second 0 = Some (Inl TypeError)"
  by code_simp

lemma step_simultaneous:
  assumes "is_simultaneous_node g (game_state st)" and "pending g st action"
    and "end_routine g st = Inr (False, st1)"
    and "\<not> is_chance_node g (game_state st)"
    and "step g st action = Some (Inr st2)"
  shows "simultaneous_actions st2 =
           AList.update (agent_selection st) action (simultaneous_actions st) \<and>
         game_state st2 = game_state st \<and> game_length st2 = game_length st \<and>
         agent_selection st2 \<in> set (agents st2) \<and>
         agent_selection st2 \<notin> set (map fst (simultaneous_actions st2))"
proof -
  from step_full[OF assms(3,5)] obtain s2 s3 where
    a: "execute_action_node g st1 action = Inr s2"
    and c: "execute_chance_node g s2 = Some (Inr s3)" and u: "updates g s3 = Inr st2"
    by blast
  note q = end_routine_False(1)[OF assms(3)]
  have f: "game_state st1 = game_state st" "agent_selection st1 = agent_selection st"
    "simultaneous_actions st1 = simultaneous_actions st" "game_length st1 = game_length st"
    "agents st1 = agents st"
    by (subst q, simp)+
  have p: "pending g st1 action"
    using assms(2) by (subst q) simp
  from assms(1) have "is_simultaneous_node g (game_state st1)" by (simp add: f)
  from execute_action_node_pending[OF this p] a
  have g2: "game_state s2 = game_state st" "game_length s2 = game_length st"
    "simultaneous_actions s2 = AList.update (agent_selection st) action (simultaneous_actions st)"
    "agent_selection s2 \<in> set (agents st)"
    "agent_selection s2 \<notin> set (map fst (simultaneous_actions s2))"
    by (auto simp: f)
  from g2(1) assms(4) have "execute_chance_node g s2 = Some (Inr s2)"
    by (simp add: execute_chance_node_not_chance)
  with c have s3: "s3 = s2" by simp
  have ag: "agents st2 = agents st"
    using updates_frame(3)[OF u] s3 execute_action_node_frame(1)[OF a] f(5) by simp
  from g2 updates_frame(1,2,7,8)[OF u] s3 ag show ?thesis by simp
qed

text \<open>
  C2, amended. At a simultaneous node \<^verbatim>\<open>_execute_action_node\<close> stores the action
  under the name of the selected agent. While an agent of \<^verbatim>\<open>self.agents\<close> has no
  stored action, the call returns with the simulator state and the node counter as
  they were and with such an agent selected. So does every \<^verbatim>\<open>step\<close> there whose
  end routine does not find the selected agent finished. Nothing is said here of the
  call that completes the holder.
\<close>

theorem simultaneous_actions_stored:
  assumes "is_simultaneous_node g (game_state st)" and "pending g st action"
  shows "(\<exists>st'. execute_action_node g st action = Inr st' \<and>
            map_of (simultaneous_actions st') (agent_selection st) = Some action \<and>
            simultaneous_actions st' =
              AList.update (agent_selection st) action (simultaneous_actions st) \<and>
            game_state st' = game_state st \<and> game_length st' = game_length st \<and>
            agent_selection st' \<in> set (agents st) \<and>
            agent_selection st' \<notin> set (map fst (simultaneous_actions st'))) \<and>
         (end_routine g st = Inr (False, st1) \<longrightarrow> \<not> is_chance_node g (game_state st) \<longrightarrow>
          step g st action = Some (Inr st2) \<longrightarrow>
            map_of (simultaneous_actions st2) (agent_selection st) = Some action \<and>
            simultaneous_actions st2 =
              AList.update (agent_selection st) action (simultaneous_actions st) \<and>
            game_state st2 = game_state st \<and> game_length st2 = game_length st \<and>
            agent_selection st2 \<in> set (agents st2) \<and>
            agent_selection st2 \<notin> set (map fst (simultaneous_actions st2)))"
proof -
  have m: "map_of (AList.update (agent_selection st) action (simultaneous_actions st))
             (agent_selection st) = Some action"
    by (simp add: update_conv')
  from execute_action_node_pending[OF assms] m
  have 1: "\<exists>st'. execute_action_node g st action = Inr st' \<and>
            map_of (simultaneous_actions st') (agent_selection st) = Some action \<and>
            simultaneous_actions st' =
              AList.update (agent_selection st) action (simultaneous_actions st) \<and>
            game_state st' = game_state st \<and> game_length st' = game_length st \<and>
            agent_selection st' \<in> set (agents st) \<and>
            agent_selection st' \<notin> set (map fst (simultaneous_actions st'))"
    by auto
  have 2: "end_routine g st = Inr (False, st1) \<longrightarrow> \<not> is_chance_node g (game_state st) \<longrightarrow>
          step g st action = Some (Inr st2) \<longrightarrow>
            map_of (simultaneous_actions st2) (agent_selection st) = Some action \<and>
            simultaneous_actions st2 =
              AList.update (agent_selection st) action (simultaneous_actions st) \<and>
            game_state st2 = game_state st \<and> game_length st2 = game_length st \<and>
            agent_selection st2 \<in> set (agents st2) \<and>
            agent_selection st2 \<notin> set (map fst (simultaneous_actions st2))"
  proof (intro impI)
    assume e: "end_routine g st = Inr (False, st1)" and n: "\<not> is_chance_node g (game_state st)"
      and s: "step g st action = Some (Inr st2)"
    note r = step_simultaneous[OF assms e n s]
    from r have q: "simultaneous_actions st2 =
        AList.update (agent_selection st) action (simultaneous_actions st)"
      by blast
    have "map_of (simultaneous_actions st2) (agent_selection st) = Some action"
      unfolding q by (rule m)
    with r show "map_of (simultaneous_actions st2) (agent_selection st) = Some action \<and>
            simultaneous_actions st2 =
              AList.update (agent_selection st) action (simultaneous_actions st) \<and>
            game_state st2 = game_state st \<and> game_length st2 = game_length st \<and>
            agent_selection st2 \<in> set (agents st2) \<and>
            agent_selection st2 \<notin> set (map fst (simultaneous_actions st2))"
      by blast
  qed
  from 1 2 show ?thesis by (intro conjI)
qed

theorem simultaneous_actions_stored_witness:
  "is_simultaneous_node duo (game_state duo_first) \<and>
   pending duo duo_first 1 \<and>
   \<not> is_chance_node duo (game_state duo_first) \<and>
   (\<exists>st'. execute_action_node duo duo_first 1 = Inr st' \<and>
      game_state st' = game_state duo_first \<and>
      simultaneous_actions st' = [(''player_0'', 1)] \<and>
      agent_selection st' \<in> set (agents duo_first)) \<and>
   map_of (simultaneous_actions duo_second) (agent_selection duo_first) = Some 1 \<and>
   simultaneous_actions duo_second = [(''player_0'', 1)] \<and>
   game_state duo_second = game_state duo_first \<and>
   game_length duo_second = game_length duo_first \<and>
   agent_selection duo_second \<in> set (agents duo_second)"
proof -
  have 1: "is_simultaneous_node duo (game_state duo_first)"
    by code_simp
  have 2: "pending duo duo_first 1"
    by code_simp
  have 3: "\<not> is_chance_node duo (game_state duo_first)"
    by code_simp
  have a: "AList.update (agent_selection duo_first) 1 (simultaneous_actions duo_first) = [(''player_0'', 1)]"
    by code_simp
  note t = simultaneous_actions_stored[OF 1 2, of duo_first duo_second]
  from t[THEN conjunct1] obtain st' where
    "execute_action_node duo duo_first 1 = Inr st'" "game_state st' = game_state duo_first"
    "simultaneous_actions st' =
       AList.update (agent_selection duo_first) 1 (simultaneous_actions duo_first)"
    "agent_selection st' \<in> set (agents duo_first)"
    by blast
  then have 4: "\<exists>st'. execute_action_node duo duo_first 1 = Inr st' \<and>
      game_state st' = game_state duo_first \<and>
      simultaneous_actions st' = [(''player_0'', 1)] \<and>
      agent_selection st' \<in> set (agents duo_first)"
    by (simp only: a) blast
  note s = t[THEN conjunct2, rule_format, OF duo_session(5) 3 duo_session(3)]
  from s
  have 5: "map_of (simultaneous_actions duo_second) (agent_selection duo_first) = Some 1"
    and 7: "game_state duo_second = game_state duo_first"
    and 8: "game_length duo_second = game_length duo_first"
    and 9: "agent_selection duo_second \<in> set (agents duo_second)"
    by blast+
  from s have "simultaneous_actions duo_second =
      AList.update (agent_selection duo_first) 1 (simultaneous_actions duo_first)"
    by blast
  then have 6: "simultaneous_actions duo_second = [(''player_0'', 1)]"
    by (simp only: a)
  show ?thesis
    by (intro conjI) (rule 1 2 3 4 5 6 7 8 9)+
qed

section \<open>Chance nodes are resolved inside\<close>

lemma step_not_chance:
  assumes "step g st action = Some (Inr st')" and "\<not> is_chance_node g (game_state st)"
  shows "\<not> is_chance_node g (game_state st')"
proof -
  from step_Inr_cases[OF assms(1)] obtain b st1 where e: "end_routine g st = Inr (b, st1)"
    by blast
  show ?thesis
  proof (cases b)
    case True
    with e step_early[of g st st1 action] assms(1) have "st' = st1" by simp
    moreover have "game_state st1 = game_state st"
      by (subst end_routine_Inr(4)[OF e]) simp
    ultimately show ?thesis using assms(2) by simp
  next
    case False
    with e have e': "end_routine g st = Inr (False, st1)" by simp
    from step_full[OF e' assms(1)] obtain st2 st3 where
      c: "execute_chance_node g st2 = Some (Inr st3)" and u: "updates g st3 = Inr st'"
      by blast
    from execute_chance_node_iter[OF c] have "\<not> is_chance_node g (game_state st3)"
      by blast
    with updates_frame(1)[OF u] show ?thesis by simp
  qed
qed

lemma reset_not_chance:
  assumes "reset g r = Some (Inr st)"
  shows "\<not> is_chance_node g (game_state st)"
proof -
  from reset_Inr[OF assms] obtain st1 st2 st3 name where
    c: "execute_chance_node g (reset_fields g r) = Some (Inr st1)"
    and o: "update_observations g st1 = Inr st2" and m: "update_action_masks g st2 = Inr st3"
    and s: "st = st3\<lparr>agent_selection := name\<rparr>"
    by blast
  from execute_chance_node_iter[OF c] have n: "\<not> is_chance_node g (game_state st1)"
    by blast
  have "game_state st2 = game_state st1"
    by (subst update_observations_Inr(1)[OF o]) simp
  moreover have "game_state st3 = game_state st2"
    by (subst update_action_masks_Inr(1)[OF m]) simp
  ultimately show ?thesis using n s by simp
qed

lemma steps_invariant:
  assumes "\<And>st a st'. P st \<Longrightarrow> step g st a = Some (Inr st') \<Longrightarrow> P st'"
  shows "(\<And>st. res = Some (Inr st) \<Longrightarrow> P st) \<Longrightarrow> steps g res as = Some (Inr st') \<Longrightarrow> P st'"
proof (induction as arbitrary: res)
  case Nil
  then show ?case by simp
next
  case (Cons a as)
  from Cons.prems(2) obtain st where r: "res = Some (Inr st)"
    and s: "steps g (step g st a) as = Some (Inr st')"
    by (cases res) (auto split: sum.splits)
  from Cons.prems(1)[OF r] have p: "P st" .
  show ?case
  proof (rule Cons.IH[OF _ s])
    fix st1 assume "step g st a = Some (Inr st1)"
    with assms[OF p] show "P st1" .
  qed
qed

text \<open>
  C3. The simulator state of an environment that \<^verbatim>\<open>reset\<close> or \<^verbatim>\<open>step\<close> has
  returned is never a chance node. \<^verbatim>\<open>_execute_chance_node\<close> returns exactly
  when a finite number of rounds leads to a node that is not a chance node, and it
  returns the environment after these rounds; each round passes the outcomes and
  the probabilities of \<^verbatim>\<open>chance_outcomes\<close> to the generator's
  \<^verbatim>\<open>choice\<close> and applies the action it draws. (That the draw follows the
  probabilities is a property of the generator, which is a parameter here.)
\<close>

theorem chance_nodes_resolved:
  "(run g r as = Some (Inr st) \<longrightarrow> \<not> is_chance_node g (game_state st)) \<and>
   ((execute_chance_node g st0 = Some (Inr st1)) =
      (\<exists>k. chance_iter g k st0 = Some (Inr st1) \<and> \<not> is_chance_node g (game_state st1))) \<and>
   (chance_step g st0 = Inr st2 \<longrightarrow>
      chance_outcomes g (game_state st0) \<noteq> [] \<and>
      game_state st2 =
        apply_action g (game_state st0)
          (fst (choice g (np_random st0) (map fst (chance_outcomes g (game_state st0)))
                  (map snd (chance_outcomes g (game_state st0))))))"
proof -
  have 1: "run g r as = Some (Inr st) \<longrightarrow> \<not> is_chance_node g (game_state st)"
  proof
    assume "run g r as = Some (Inr st)"
    then have s: "steps g (reset g r) as = Some (Inr st)" by (simp add: run_def)
    show "\<not> is_chance_node g (game_state st)"
    proof (rule steps_invariant[where P = "\<lambda>st. \<not> is_chance_node g (game_state st)", OF _ _ s])
      fix st a st' assume "\<not> is_chance_node g (game_state st)" "step g st a = Some (Inr st')"
      then show "\<not> is_chance_node g (game_state st')" using step_not_chance by blast
    next
      fix st assume "reset g r = Some (Inr st)"
      then show "\<not> is_chance_node g (game_state st)" by (rule reset_not_chance)
    qed
  qed
  have 2: "(execute_chance_node g st0 = Some (Inr st1)) =
      (\<exists>k. chance_iter g k st0 = Some (Inr st1) \<and> \<not> is_chance_node g (game_state st1))"
    using execute_chance_node_iter[of g st0 st1] chance_iter_returns[of g _ st0 st1] by blast
  have 3: "chance_step g st0 = Inr st2 \<longrightarrow>
      chance_outcomes g (game_state st0) \<noteq> [] \<and>
      game_state st2 =
        apply_action g (game_state st0)
          (fst (choice g (np_random st0) (map fst (chance_outcomes g (game_state st0)))
                  (map snd (chance_outcomes g (game_state st0)))))"
    by (auto simp: chance_step_def Let_def split: if_splits prod.splits)
  from 1 2 3 show ?thesis by blast
qed

theorem chance_nodes_resolved_witness:
  "is_chance_node solo (new_initial_state solo) \<and>
   \<not> is_chance_node solo (game_state solo_mid) \<and>
   (\<exists>k. chance_iter solo k (reset_fields solo 0) =
           Some (Inr ((reset_fields solo 0)\<lparr>game_length := 2, np_random := 1, game_state := 1\<rparr>))) \<and>
   game_state ((reset_fields solo 0)\<lparr>game_length := 2, np_random := 1, game_state := 1\<rparr>) =
     apply_action solo (game_state (reset_fields solo 0)) 0"
proof -
  let ?s = "(reset_fields solo 0)\<lparr>game_length := 2, np_random := 1, game_state := 1\<rparr>"
  have 0: "is_chance_node solo (new_initial_state solo)"
    by code_simp
  have r: "run solo 0 [0] = Some (Inr solo_mid)"
    by code_simp
  have e: "execute_chance_node solo (reset_fields solo 0) = Some (Inr ?s)"
    by code_simp
  have c: "chance_step solo (reset_fields solo 0) = Inr ?s"
    by code_simp
  have f: "fst (choice solo (np_random (reset_fields solo 0))
                 (map fst (chance_outcomes solo (game_state (reset_fields solo 0))))
                 (map snd (chance_outcomes solo (game_state (reset_fields solo 0))))) = 0"
    by code_simp
  note t = chance_nodes_resolved[of solo 0 "[0]" solo_mid "reset_fields solo 0" ?s ?s]
  from t r have 1: "\<not> is_chance_node solo (game_state solo_mid)" by blast
  from t e have 2: "\<exists>k. chance_iter solo k (reset_fields solo 0) = Some (Inr ?s)" by blast
  from t c have "game_state ?s = apply_action solo (game_state (reset_fields solo 0))
          (fst (choice solo (np_random (reset_fields solo 0))
                 (map fst (chance_outcomes solo (game_state (reset_fields solo 0))))
                 (map snd (chance_outcomes solo (game_state (reset_fields solo 0))))))"
    by blast
  then have 3: "game_state ?s = apply_action solo (game_state (reset_fields solo 0)) 0"
    by (simp only: f)
  show ?thesis
    by (intro conjI) (rule 0 1 2 3)+
qed

section \<open>What the end routine detects\<close>

text \<open>
  C6, as the claim states it, fails: on \<open>turns\<close> after \<^verbatim>\<open>reset\<close> the state is
  not terminal, and the end routine sets \<^verbatim>\<open>terminations\<close> to \<^verbatim>\<open>True\<close> for
  both agents, because player 1, who is not to move, has an action mask of zeros.
\<close>

theorem flags_all_true_not_terminal:
  "\<not> is_terminal turns (game_state turns_start) \<and>
   flags_after turns turns_start =
     Inr ([(''player_0'', True), (''player_1'', True)],
          [(''player_0'', False), (''player_1'', False)])"
  by code_simp

lemma chance_iter_unique:
  "chance_iter g k x = Some (Inr s) \<Longrightarrow> \<not> is_chance_node g (game_state s) \<Longrightarrow>
   chance_iter g k' x = Some (Inr s') \<Longrightarrow> \<not> is_chance_node g (game_state s') \<Longrightarrow> k = k'"
proof (induction k arbitrary: k' x)
  case 0
  then show ?case by (cases k') (auto split: if_splits)
next
  case (Suc k)
  from Suc.prems(1) have c: "is_chance_node g (game_state x)"
    by (simp split: if_splits)
  with Suc.prems(1) obtain x1 where x1: "chance_step g x = Inr x1"
    and r: "chance_iter g k x1 = Some (Inr s)"
    by (auto split: sum.splits)
  show ?case
  proof (cases k')
    case 0
    with Suc.prems(3,4) c show ?thesis by simp
  next
    case (Suc j)
    with Suc.prems(3) c x1 have "chance_iter g j x1 = Some (Inr s')" by simp
    from Suc.IH[OF r Suc.prems(2) this Suc.prems(4)] Suc show ?thesis by simp
  qed
qed

lemma reset_after_chance:
  assumes "reset g r = Some (Inr s0)"
  shows "\<exists>k s. chance_iter g k (reset_fields g r) = Some (Inr s) \<and>
           \<not> is_chance_node g (game_state s) \<and>
           s0 = s\<lparr>observations := observations s0, infos := infos s0,
                  agent_selection := agent_selection s0\<rparr> \<and>
           game_length s0 = 1 + int k"
proof -
  from reset_Inr[OF assms] obtain s1 s2 s3 name where
    c: "execute_chance_node g (reset_fields g r) = Some (Inr s1)"
    and o: "update_observations g s1 = Inr s2" and m: "update_action_masks g s2 = Inr s3"
    and s: "s0 = s3\<lparr>agent_selection := name\<rparr>"
    by blast
  from execute_chance_node_iter[OF c] obtain k where
    k: "chance_iter g k (reset_fields g r) = Some (Inr s1)"
    and n: "\<not> is_chance_node g (game_state s1)" by blast
  note eo = update_observations_Inr(1)[OF o] and em = update_action_masks_Inr(1)[OF m]
  have e: "s0 = s1\<lparr>observations := observations s2, infos := infos s3, agent_selection := name\<rparr>"
    by (subst s, subst em, subst eo) simp
  have f: "observations s0 = observations s2" "infos s0 = infos s3" "agent_selection s0 = name"
    "game_length s0 = game_length s1"
    by (subst e, simp)+
  have l: "game_length s0 = 1 + int k"
    using chance_iter_length[OF k] f(4) by (simp add: reset_fields_simps)
  have "s0 = s1\<lparr>observations := observations s0, infos := infos s0,
                  agent_selection := agent_selection s0\<rparr>"
    unfolding f(1,2,3) by (rule e)
  with k n l show ?thesis by blast
qed

lemma step_after_chance:
  assumes "end_routine g st = Inr (False, st1)" and "step g st action = Some (Inr st2)"
  shows "\<exists>k s1 s. execute_action_node g st1 action = Inr s1 \<and>
           game_state s1 =
             (if pending g st action then game_state st
              else apply_action g (game_state st) action) \<and>
           game_length s1 = game_length st + (if pending g st action then 0 else 1) \<and>
           chance_iter g k s1 = Some (Inr s) \<and>
           \<not> is_chance_node g (game_state s) \<and>
           st2 = s\<lparr>observations := observations st2, infos := infos st2,
                   cumulative_rewards := cumulative_rewards st2\<rparr> \<and>
           game_length st2 = game_length st + (if pending g st action then 0 else 1) + int k"
proof -
  from step_full[OF assms] obtain s1 s3 where
    a: "execute_action_node g st1 action = Inr s1"
    and c: "execute_chance_node g s1 = Some (Inr s3)" and u: "updates g s3 = Inr st2"
    by blast
  from execute_chance_node_iter[OF c] obtain k where k: "chance_iter g k s1 = Some (Inr s3)"
    and n: "\<not> is_chance_node g (game_state s3)"
    by blast
  have p: "pending g st1 action = pending g st action"
    by (subst end_routine_False(1)[OF assms(1)]) simp
  have l: "game_length st1 = game_length st" "game_state st1 = game_state st"
    by (rule end_routine_flags(3,4)[OF assms(1)])+
  have gs: "game_state s1 =
             (if pending g st action then game_state st
              else apply_action g (game_state st) action)"
    using execute_action_node_length(2)[OF a] p l by simp
  have gl: "game_length s1 = game_length st + (if pending g st action then 0 else 1)"
    using execute_action_node_length(1)[OF a] p l by simp
  from updates_Inr[OF u] obtain x y where
    o: "update_observations g s3 = Inr x" and m: "update_action_masks g x = Inr y"
    and w: "update_rewards g y = Inr st2" by blast
  note eo = update_observations_Inr(1)[OF o] and em = update_action_masks_Inr(1)[OF m]
    and ew = update_rewards_Inr(1)[OF w]
  have e: "st2 = s3\<lparr>observations := observations x, infos := infos y,
                    cumulative_rewards := cumulative_rewards st2\<rparr>"
    by (subst ew, subst em, subst eo) simp
  have f: "observations st2 = observations x" "infos st2 = infos y"
    by (subst e, simp)+
  have e': "st2 = s3\<lparr>observations := observations st2, infos := infos st2,
                    cumulative_rewards := cumulative_rewards st2\<rparr>"
    unfolding f by (rule e)
  have "game_length st2 = game_length st + (if pending g st action then 0 else 1) + int k"
    using updates_frame(2)[OF u] chance_iter_length[OF k] gl by simp
  with a gs gl k n e' show ?thesis by blast
qed

text \<open>
  C6, amended. Whenever the end routine runs, it gives every agent of
  \<^verbatim>\<open>self.agents\<close> the same two flags: \<^verbatim>\<open>terminations[a]\<close> is \<^verbatim>\<open>True\<close>
  when the simulator state is terminal or the action mask of some agent of
  \<^verbatim>\<open>self.agents\<close> sums to zero, and \<^verbatim>\<open>False\<close> otherwise;
  \<^verbatim>\<open>truncations[a]\<close> is \<^verbatim>\<open>True\<close> when \<^verbatim>\<open>game_length\<close> exceeds
  \<^verbatim>\<open>max_game_length()\<close>, and \<^verbatim>\<open>False\<close> otherwise. \<^verbatim>\<open>game_length\<close> is 1 when
  \<^verbatim>\<open>reset\<close> starts and goes up by one for each chance node resolved and for each
  action applied to the simulator: the environment a call returns is, up to the
  dictionaries refreshed afterwards, the one \<open>k\<close> rounds of the chance loop lead to,
  at a node that is not a chance node, and \<open>k\<close>, the one number of rounds that does
  so, is what the counter has gained beside the action.
\<close>

theorem end_flags_uniform:
  "(end_routine g st = Inr (b, st') \<longrightarrow>
      (\<forall>a\<in>set (agents st).
          map_of (terminations st') a = Some (terminated_flag g st) \<and>
          map_of (truncations st') a = Some (truncated_flag g st)) \<and>
      game_length st' = game_length st) \<and>
   (reset g r = Some (Inr s0) \<longrightarrow>
      game_length (reset_fields g r) = 1 \<and>
      (\<exists>k s. chance_iter g k (reset_fields g r) = Some (Inr s) \<and>
             \<not> is_chance_node g (game_state s) \<and>
             s0 = s\<lparr>observations := observations s0, infos := infos s0,
                    agent_selection := agent_selection s0\<rparr> \<and>
             game_length s0 = 1 + int k)) \<and>
   (end_routine g st = Inr (False, st1) \<longrightarrow> step g st action = Some (Inr st2) \<longrightarrow>
      (\<exists>k s1 s. execute_action_node g st1 action = Inr s1 \<and>
                game_state s1 =
                  (if pending g st action then game_state st
                   else apply_action g (game_state st) action) \<and>
                game_length s1 = game_length st + (if pending g st action then 0 else 1) \<and>
                chance_iter g k s1 = Some (Inr s) \<and>
                \<not> is_chance_node g (game_state s) \<and>
                st2 = s\<lparr>observations := observations st2, infos := infos st2,
                        cumulative_rewards := cumulative_rewards st2\<rparr> \<and>
                game_length st2 =
                  game_length st + (if pending g st action then 0 else 1) + int k)) \<and>
   (chance_iter g k x = Some (Inr s) \<longrightarrow> \<not> is_chance_node g (game_state s) \<longrightarrow>
    chance_iter g k' x = Some (Inr s') \<longrightarrow> \<not> is_chance_node g (game_state s') \<longrightarrow> k = k')"
proof -
  have 1: "end_routine g st = Inr (b, st') \<longrightarrow>
      (\<forall>a\<in>set (agents st).
          map_of (terminations st') a = Some (terminated_flag g st) \<and>
          map_of (truncations st') a = Some (truncated_flag g st)) \<and>
      game_length st' = game_length st"
  proof
    assume e: "end_routine g st = Inr (b, st')"
    note f = end_routine_flags[OF e]
    show "(\<forall>a\<in>set (agents st).
          map_of (terminations st') a = Some (terminated_flag g st) \<and>
          map_of (truncations st') a = Some (truncated_flag g st)) \<and>
      game_length st' = game_length st"
      by (simp add: f(1,2,3) map_of_dict_comp)
  qed
  have 2: "reset g r = Some (Inr s0) \<longrightarrow>
      game_length (reset_fields g r) = 1 \<and>
      (\<exists>k s. chance_iter g k (reset_fields g r) = Some (Inr s) \<and>
             \<not> is_chance_node g (game_state s) \<and>
             s0 = s\<lparr>observations := observations s0, infos := infos s0,
                    agent_selection := agent_selection s0\<rparr> \<and>
             game_length s0 = 1 + int k)"
    using reset_after_chance[of g r s0] by (simp add: reset_fields_simps)
  have 3: "end_routine g st = Inr (False, st1) \<longrightarrow> step g st action = Some (Inr st2) \<longrightarrow>
      (\<exists>k s1 s. execute_action_node g st1 action = Inr s1 \<and>
                game_state s1 =
                  (if pending g st action then game_state st
                   else apply_action g (game_state st) action) \<and>
                game_length s1 = game_length st + (if pending g st action then 0 else 1) \<and>
                chance_iter g k s1 = Some (Inr s) \<and>
                \<not> is_chance_node g (game_state s) \<and>
                st2 = s\<lparr>observations := observations st2, infos := infos st2,
                        cumulative_rewards := cumulative_rewards st2\<rparr> \<and>
                game_length st2 =
                  game_length st + (if pending g st action then 0 else 1) + int k)"
    using step_after_chance[of g st st1 action st2] by blast
  have 4: "chance_iter g k x = Some (Inr s) \<longrightarrow> \<not> is_chance_node g (game_state s) \<longrightarrow>
    chance_iter g k' x = Some (Inr s') \<longrightarrow> \<not> is_chance_node g (game_state s') \<longrightarrow> k = k'"
    using chance_iter_unique[of g k x s k' s'] by blast
  from 1 2 3 4 show ?thesis by (intro conjI)
qed

theorem end_flags_uniform_witness:
  "map_of [(''player_0'', True), (''player_1'', True)] ''player_0'' =
     Some (terminated_flag turns turns_start) \<and>
   map_of [(''player_0'', False), (''player_1'', False)] ''player_1'' =
     Some (truncated_flag turns turns_start) \<and>
   (\<exists>k s. chance_iter solo k (reset_fields solo 0) = Some (Inr s) \<and>
          \<not> is_chance_node solo (game_state s) \<and>
          solo_start = s\<lparr>observations := observations solo_start, infos := infos solo_start,
                          agent_selection := agent_selection solo_start\<rparr> \<and>
          game_length solo_start = 1 + int k) \<and>
   game_length solo_start = 1 + int 1 \<and>
   (\<exists>k s1 s. execute_action_node solo solo_start 0 = Inr s1 \<and>
             game_state s1 =
               (if pending solo solo_start 0 then game_state solo_start
                else apply_action solo (game_state solo_start) 0) \<and>
             game_length s1 = game_length solo_start + (if pending solo solo_start 0 then 0 else 1) \<and>
             chance_iter solo k s1 = Some (Inr s) \<and>
             \<not> is_chance_node solo (game_state s) \<and>
             solo_mid = s\<lparr>observations := observations solo_mid, infos := infos solo_mid,
                           cumulative_rewards := cumulative_rewards solo_mid\<rparr> \<and>
             game_length solo_mid =
               game_length solo_start + (if pending solo solo_start 0 then 0 else 1) + int k)"
proof -
  let ?x = "turns_start\<lparr>terminations := [(''player_0'', True), (''player_1'', True)],
                         agents := [''player_1''], agent_selection := ''player_1''\<rparr>"
  let ?c = "(reset_fields solo 0)\<lparr>game_length := 2, np_random := 1, game_state := 1\<rparr>"
  note t = end_flags_uniform[where g = turns and st = turns_start and b = True and st' = ?x]
  note u = end_flags_uniform[where g = solo and r = 0 and ?s0.0 = solo_start and st = solo_start
      and ?st1.0 = solo_start and action = 0 and ?st2.0 = solo_mid
      and x = "reset_fields solo 0" and s = ?c and k = 1 and s' = ?c]
  have a: "''player_0'' \<in> set (agents turns_start)" "''player_1'' \<in> set (agents turns_start)"
    by (simp_all add: turns_start_def)
  have x: "terminations ?x = [(''player_0'', True), (''player_1'', True)]"
    "truncations ?x = [(''player_0'', False), (''player_1'', False)]"
    by (simp_all add: turns_start_def)
  from t turns_end_routine a have
    "map_of (terminations ?x) ''player_0'' = Some (terminated_flag turns turns_start)"
    "map_of (truncations ?x) ''player_1'' = Some (truncated_flag turns turns_start)"
    by blast+
  then have 1: "map_of [(''player_0'', True), (''player_1'', True)] ''player_0'' =
     Some (terminated_flag turns turns_start)"
    and 2: "map_of [(''player_0'', False), (''player_1'', False)] ''player_1'' =
     Some (truncated_flag turns turns_start)"
    by (simp_all only: x)
  from u solo_session(1) have 3: "\<exists>k s. chance_iter solo k (reset_fields solo 0) = Some (Inr s) \<and>
          \<not> is_chance_node solo (game_state s) \<and>
          solo_start = s\<lparr>observations := observations solo_start, infos := infos solo_start,
                          agent_selection := agent_selection solo_start\<rparr> \<and>
          game_length solo_start = 1 + int k"
    by blast
  have c: "chance_iter solo 1 (reset_fields solo 0) = Some (Inr ?c)"
    "\<not> is_chance_node solo (game_state ?c)"
    by code_simp+
  from 3 obtain k s where k: "chance_iter solo k (reset_fields solo 0) = Some (Inr s)"
    "\<not> is_chance_node solo (game_state s)" "game_length solo_start = 1 + int k"
    by blast
  from u have "chance_iter solo 1 (reset_fields solo 0) = Some (Inr ?c) \<longrightarrow>
      \<not> is_chance_node solo (game_state ?c) \<longrightarrow>
      chance_iter solo k (reset_fields solo 0) = Some (Inr s) \<longrightarrow>
      \<not> is_chance_node solo (game_state s) \<longrightarrow> k = 1"
    using end_flags_uniform[where g = solo and k = 1 and x = "reset_fields solo 0" and s = ?c
        and k' = k and s' = s]
    by blast
  with c k have "k = 1" by blast
  with k(3) have 4: "game_length solo_start = 1 + int 1" by simp
  from u solo_session(2,4) have 5: "\<exists>k s1 s. execute_action_node solo solo_start 0 = Inr s1 \<and>
             game_state s1 =
               (if pending solo solo_start 0 then game_state solo_start
                else apply_action solo (game_state solo_start) 0) \<and>
             game_length s1 = game_length solo_start + (if pending solo solo_start 0 then 0 else 1) \<and>
             chance_iter solo k s1 = Some (Inr s) \<and>
             \<not> is_chance_node solo (game_state s) \<and>
             solo_mid = s\<lparr>observations := observations solo_mid, infos := infos solo_mid,
                           cumulative_rewards := cumulative_rewards solo_mid\<rparr> \<and>
             game_length solo_mid =
               game_length solo_start + (if pending solo solo_start 0 then 0 else 1) + int k"
    by blast
  show ?thesis
    by (intro conjI) (rule 1 2 3 4 5)+
qed

section \<open>The order of a step\<close>

text \<open>
  C1, as the claim states it, fails: on \<open>solo\<close> the second step reaches the terminal
  state, and the environment it returns still has the flag of the agent at
  \<^verbatim>\<open>False\<close> and the agent in \<^verbatim>\<open>self.agents\<close>.
\<close>

theorem terminal_reached_not_flagged:
  "end_view solo (run solo 0 [0, 1]) =
     Some (Inr (True, [(''player_0'', False)], [(''player_0'', False)], [''player_0'']))"
  by code_simp

text \<open>
  C1, amended. \<^verbatim>\<open>step\<close> runs the end routine first, on the state the call before
  has left. When that does not find the selected agent finished, the call handles the
  action (applies it, or at a simultaneous node stores it until every agent has
  submitted), resolves chance nodes and refreshes observations, masks and rewards,
  and returns without another detection: the agents are those of before and both
  flags are \<^verbatim>\<open>False\<close> for each of them, also when the state reached is terminal.
  A terminal state is detected by the end routine of the next call, which sets
  \<^verbatim>\<open>terminations\<close> to \<^verbatim>\<open>True\<close> for every agent and retires the selected one.
\<close>

theorem step_defers_detection:
  assumes "end_routine g st = Inr (False, st1)" and "step g st action = Some (Inr st')"
  shows "(\<exists>st2 st3. execute_action_node g st1 action = Inr st2 \<and>
            game_state st2 =
              (if pending g st action then game_state st
               else apply_action g (game_state st) action) \<and>
            execute_chance_node g st2 = Some (Inr st3) \<and> game_state st' = game_state st3) \<and>
         agents st' = agents st \<and>
         terminations st' = dict_comp (\<lambda>a. False) (agents st) \<and>
         truncations st' = dict_comp (\<lambda>a. False) (agents st) \<and>
         (\<forall>b st''. is_terminal g (game_state st') \<longrightarrow> end_routine g st' = Inr (b, st'') \<longrightarrow>
            b \<and> agents st'' = remove1 (agent_selection st') (agents st') \<and>
            terminations st'' = dict_comp (\<lambda>a. True) (agents st'))"
proof -
  from step_full[OF assms] obtain st2 st3 where
    a: "execute_action_node g st1 action = Inr st2"
    and c: "execute_chance_node g st2 = Some (Inr st3)" and u: "updates g st3 = Inr st'"
    by blast
  note e = end_routine_False(1)[OF assms(1)]
  have f: "game_state st1 = game_state st" "agent_selection st1 = agent_selection st"
    "simultaneous_actions st1 = simultaneous_actions st" "agents st1 = agents st"
    "terminations st1 = dict_comp (\<lambda>a. False) (agents st)"
    "truncations st1 = dict_comp (\<lambda>a. False) (agents st)"
    by (subst e, simp)+
  have p: "pending g st1 action = pending g st action"
    by (subst e) simp
  have gs: "game_state st2 =
              (if pending g st action then game_state st
               else apply_action g (game_state st) action)"
    using execute_action_node_length(2)[OF a] p f(1) by simp
  have ag: "agents st' = agents st"
    using updates_frame(3)[OF u] chance_frame(1)[OF c] execute_action_node_frame(1)[OF a] f(4)
    by simp
  have te: "terminations st' = dict_comp (\<lambda>a. False) (agents st)"
    using updates_frame(4)[OF u] chance_frame(3)[OF c] execute_action_node_frame(3)[OF a] f(5)
    by simp
  have tr: "truncations st' = dict_comp (\<lambda>a. False) (agents st)"
    using updates_frame(5)[OF u] chance_frame(4)[OF c] execute_action_node_frame(4)[OF a] f(6)
    by simp
  have nx: "\<forall>b st''. is_terminal g (game_state st') \<longrightarrow> end_routine g st' = Inr (b, st'') \<longrightarrow>
            b \<and> agents st'' = remove1 (agent_selection st') (agents st') \<and>
            terminations st'' = dict_comp (\<lambda>a. True) (agents st')"
  proof (intro allI impI)
    fix b st'' assume t: "is_terminal g (game_state st')" and n: "end_routine g st' = Inr (b, st'')"
    from t have tf: "terminated_flag g st'" by (simp add: terminated_flag_def)
    with end_routine_Inr(3)[OF n] have b: "b" by simp
    with end_routine_flags(1,5)[OF n] tf
    show "b \<and> agents st'' = remove1 (agent_selection st') (agents st') \<and>
            terminations st'' = dict_comp (\<lambda>a. True) (agents st')"
      by simp
  qed
  from a gs c updates_frame(1)[OF u] ag te tr nx show ?thesis by blast
qed

theorem step_defers_detection_witness:
  "is_terminal solo (game_state solo_end) \<and>
   agents solo_end = agents solo_mid \<and>
   terminations solo_end = dict_comp (\<lambda>a. False) (agents solo_mid) \<and>
   truncations solo_end = dict_comp (\<lambda>a. False) (agents solo_mid) \<and>
   agents (solo_end\<lparr>terminations := [(''player_0'', True)], agents := []\<rparr>) =
     remove1 (agent_selection solo_end) (agents solo_end) \<and>
   terminations (solo_end\<lparr>terminations := [(''player_0'', True)], agents := []\<rparr>) =
     dict_comp (\<lambda>a. True) (agents solo_end)"
proof -
  let ?y = "solo_end\<lparr>terminations := [(''player_0'', True)], agents := []\<rparr>"
  have 0: "is_terminal solo (game_state solo_end)"
    by code_simp
  have n: "end_routine solo solo_end = Inr (True, ?y)"
    by code_simp
  note t = step_defers_detection[OF solo_session(5) solo_session(3)]
  from t have 1: "agents solo_end = agents solo_mid"
    and 2: "terminations solo_end = dict_comp (\<lambda>a. False) (agents solo_mid)"
    and 3: "truncations solo_end = dict_comp (\<lambda>a. False) (agents solo_mid)"
    by blast+
  from t 0 n have 4: "agents ?y = remove1 (agent_selection solo_end) (agents solo_end)"
    and 5: "terminations ?y = dict_comp (\<lambda>a. True) (agents solo_end)"
    by blast+
  show ?thesis
    by (intro conjI) (rule 0 1 2 3 4 5)+
qed

section \<open>Action masks\<close>

lemma set_ones_legal_mask:
  assumes "set_ones (replicate n 0) (legal_actions g gs i) = Inr m"
    and "\<forall>a\<in>set (legal_actions g gs i). 0 \<le> a"
  shows "m = legal_mask g gs i n"
proof (rule nth_equalityI)
  from set_ones_length[OF assms(1)] show l: "length m = length (legal_mask g gs i n)"
    by (simp add: legal_mask_def)
  fix a assume "a < length m"
  with l have a: "a < n" by (simp add: legal_mask_def)
  then have "a < length (replicate n (0::int))" by simp
  from set_ones_nth_nonneg[OF assms(1,2) this] a
  show "m ! a = legal_mask g gs i n ! a"
    by (simp add: legal_mask_def)
qed

lemma update_action_masks_legal:
  assumes "update_action_masks g s = Inr s'"
    and "\<forall>i<num_players g. \<forall>a\<in>set (legal_actions g (game_state s) i). 0 \<le> a"
  shows "\<forall>i<num_players g. \<exists>n. num_distinct_actions g = Inr n \<and>
           map_of (infos s') (player_name i) = Some (Some (legal_mask g (game_state s) i n))"
proof (intro allI impI)
  fix i assume i: "i < num_players g"
  with update_action_masks_Inr(2)[OF assms(1)] obtain n m where
    n: "num_distinct_actions g = Inr n"
    and m: "set_ones (replicate n 0) (legal_actions g (game_state s) i) = Inr m"
    and f: "map_of (infos s') (player_name i) = Some (Some m)"
    by blast
  from assms(2) i have "\<forall>a\<in>set (legal_actions g (game_state s) i). 0 \<le> a" by simp
  from set_ones_legal_mask[OF m this] n f
  show "\<exists>n. num_distinct_actions g = Inr n \<and>
           map_of (infos s') (player_name i) = Some (Some (legal_mask g (game_state s) i n))"
    by simp
qed

text \<open>
  C4. After \<^verbatim>\<open>reset\<close> and after every \<^verbatim>\<open>step\<close> that advances the state (the
  end routine has not returned early), \<^verbatim>\<open>infos[agent]["action_mask"]\<close> of every
  agent of the game is the binary vector of length \<^verbatim>\<open>num_distinct_actions()\<close>
  with 1 exactly at the legal actions of that agent's id in the current state. The
  actions of the simulator are not negative (numpy would read a negative one as an
  index from the end).
\<close>

theorem action_masks_legal:
  assumes "reset g r = Some (Inr st) \<or>
           (end_routine g st0 = Inr (False, st1) \<and> step g st0 action = Some (Inr st))"
    and "\<forall>i<num_players g. \<forall>a\<in>set (legal_actions g (game_state st) i). 0 \<le> a"
  shows "\<forall>i<num_players g. \<exists>n. num_distinct_actions g = Inr n \<and>
           map_of (infos st) (player_name i) = Some (Some (legal_mask g (game_state st) i n))"
  using assms(1)
proof
  assume "reset g r = Some (Inr st)"
  from reset_Inr[OF this] obtain s1 s2 s3 name where
    m: "update_action_masks g s2 = Inr s3" and s: "st = s3\<lparr>agent_selection := name\<rparr>"
    by blast
  have gs: "game_state s2 = game_state st"
    by (subst s, subst update_action_masks_Inr(1)[OF m]) simp
  from update_action_masks_legal[OF m] assms(2) gs s show ?thesis by simp
next
  assume "end_routine g st0 = Inr (False, st1) \<and> step g st0 action = Some (Inr st)"
  then have e: "end_routine g st0 = Inr (False, st1)" and t: "step g st0 action = Some (Inr st)"
    by simp_all
  from step_full[OF e t] obtain s2 s3 where u: "updates g s3 = Inr st" by blast
  from updates_Inr[OF u] obtain a b where
    m: "update_action_masks g a = Inr b" and w: "update_rewards g b = Inr st" by blast
  have gs: "game_state a = game_state st"
    by (subst update_rewards_Inr(1)[OF w], subst update_action_masks_Inr(1)[OF m]) simp
  have inf: "infos st = infos b"
    by (subst update_rewards_Inr(1)[OF w]) simp
  from update_action_masks_legal[OF m] assms(2) gs inf show ?thesis by simp
qed

theorem action_masks_legal_witness:
  "map_of (infos solo_start) ''player_0'' = Some (Some [1, 1]) \<and>
   legal_actions solo (game_state solo_start) 0 = [0, 1] \<and>
   map_of (infos solo_end) ''player_0'' = Some (Some [0, 0]) \<and>
   legal_actions solo (game_state solo_end) 0 = []"
proof -
  have p: "(0::nat) < num_players solo" "player_name 0 = ''player_0''"
    "num_distinct_actions solo = Inr 2"
    by code_simp+
  have l: "legal_mask solo (game_state solo_start) 0 2 = [1, 1]"
    "legal_mask solo (game_state solo_end) 0 2 = [0, 0]"
    by code_simp+
  have h1: "\<forall>i<num_players solo. \<forall>a\<in>set (legal_actions solo (game_state solo_start) i). 0 \<le> a"
    by (auto simp: solo_def)
  have h2: "\<forall>i<num_players solo. \<forall>a\<in>set (legal_actions solo (game_state solo_end) i). 0 \<le> a"
    by (auto simp: solo_def)
  have c1: "reset solo 0 = Some (Inr solo_start) \<or>
           (end_routine solo solo_mid = Inr (False, solo_mid) \<and> step solo solo_mid 1 = Some (Inr solo_start))"
    using solo_session(1) by simp
  have c2: "reset solo 0 = Some (Inr solo_end) \<or>
           (end_routine solo solo_mid = Inr (False, solo_mid) \<and> step solo solo_mid 1 = Some (Inr solo_end))"
    using solo_session(3,5) by simp
  from action_masks_legal[OF c1 h1] p l
  have 1: "map_of (infos solo_start) ''player_0'' = Some (Some [1, 1])" by fastforce
  from action_masks_legal[OF c2 h2] p l
  have 3: "map_of (infos solo_end) ''player_0'' = Some (Some [0, 0])" by fastforce
  have 2: "legal_actions solo (game_state solo_start) 0 = [0, 1]"
    and 4: "legal_actions solo (game_state solo_end) 0 = []"
    by code_simp+
  show ?thesis
    by (intro conjI) (rule 1 2 3 4)+
qed

section \<open>Rewards and observations\<close>

text \<open>
  C7. After every \<^verbatim>\<open>step\<close> that does not return early from the end routine, the
  cumulative reward of every agent of the game is the entry of
  \<^verbatim>\<open>game_state.rewards()\<close> at the agent's id, for the state the step has reached,
  and \<^verbatim>\<open>observe\<close> returns, for every agent in \<^verbatim>\<open>self.agents\<close>, the
  observation tensor of the simulator for the agent's id in that state.
\<close>

theorem rewards_and_observations_copied:
  assumes "end_routine g st0 = Inr (False, st1)" and "step g st0 action = Some (Inr st)"
  shows "(\<forall>i<num_players g. i < length (state_rewards g (game_state st)) \<and>
            map_of (cumulative_rewards st) (player_name i) =
              Some (state_rewards g (game_state st) ! i)) \<and>
         (\<forall>a\<in>set (agents st). \<exists>i t. getitem (agent_name_id_mapping g) a = Inr i \<and>
            observation_tensor g (game_state st) i = Inr t \<and> observe st a = Inr t)"
proof -
  from step_full[OF assms] obtain s2 s3 where u: "updates g s3 = Inr st" by blast
  from updates_Inr[OF u] obtain a b where
    o: "update_observations g s3 = Inr a" and m: "update_action_masks g a = Inr b"
    and w: "update_rewards g b = Inr st" by blast
  note ea = update_observations_Inr(1)[OF o] and eb = update_action_masks_Inr(1)[OF m]
    and ec = update_rewards_Inr(1)[OF w]
  have gb: "game_state b = game_state st" by (subst ec) simp
  have g3: "game_state s3 = game_state st" by (subst ec, subst eb, subst ea) simp
  have ag: "agents s3 = agents st" by (subst ec, subst eb, subst ea) simp
  have ob: "observations st = observations a" by (subst ec, subst eb) simp
  have 1: "\<forall>i<num_players g. i < length (state_rewards g (game_state st)) \<and>
            map_of (cumulative_rewards st) (player_name i) =
              Some (state_rewards g (game_state st) ! i)"
    using update_rewards_Inr(2)[OF w] by (simp add: gb)
  have 2: "\<forall>a\<in>set (agents st). \<exists>i t. getitem (agent_name_id_mapping g) a = Inr i \<and>
            observation_tensor g (game_state st) i = Inr t \<and> observe st a = Inr t"
  proof
    fix x assume "x \<in> set (agents st)"
    with update_observations_Inr(2)[OF o] ag g3 obtain i t where
      "getitem (agent_name_id_mapping g) x = Inr i" "observation_tensor g (game_state st) i = Inr t"
      "map_of (observations a) x = Some t"
      by fastforce
    then show "\<exists>i t. getitem (agent_name_id_mapping g) x = Inr i \<and>
            observation_tensor g (game_state st) i = Inr t \<and> observe st x = Inr t"
      by (auto simp: observe_def getitem_def ob)
  qed
  from 1 2 show ?thesis by simp
qed

theorem rewards_and_observations_copied_witness:
  "map_of (cumulative_rewards solo_mid) ''player_0'' = Some (state_rewards solo 2 ! 0) \<and>
   state_rewards solo 2 ! 0 = 2 \<and>
   observation_tensor solo 2 0 = Inr [2] \<and>
   observe solo_mid ''player_0'' = Inr [2]"
proof -
  note t = rewards_and_observations_copied[OF solo_session(4) solo_session(2)]
  have p: "(0::nat) < num_players solo" "player_name 0 = ''player_0''"
    "game_state solo_mid = 2" "''player_0'' \<in> set (agents solo_mid)"
    "getitem (agent_name_id_mapping solo) ''player_0'' = Inr 0"
    by code_simp+
  have 3: "observation_tensor solo 2 0 = Inr [2]"
    by code_simp
  have 2: "state_rewards solo 2 ! 0 = 2"
    by (simp add: solo_def)
  from t p have 1: "map_of (cumulative_rewards solo_mid) ''player_0'' = Some (state_rewards solo 2 ! 0)"
    by fastforce
  from t p(4) obtain i u where "getitem (agent_name_id_mapping solo) ''player_0'' = Inr i"
    "observation_tensor solo (game_state solo_mid) i = Inr u" "observe solo_mid ''player_0'' = Inr u"
    by blast
  with p 3 have 4: "observe solo_mid ''player_0'' = Inr [2]"
    by simp
  show ?thesis
    by (intro conjI) (rule 1 2 3 4)+
qed

section \<open>The selected agent\<close>

text \<open>
  C5, as the claim states it, fails. On \<open>solo\<close> the second step reaches the terminal
  state and leaves the agent selected and in \<^verbatim>\<open>self.agents\<close>, but the next
  \<^verbatim>\<open>step\<close> consumes no action of that agent: whatever the action, the end
  routine retires the agent.
\<close>

theorem selected_agent_not_consumed:
  "turn_view (run solo 0 [0, 1]) = Some (Inr (''player_0'', [''player_0''])) \<and>
   run solo 0 [0, 1, 0] = run solo 0 [0, 1, 1] \<and>
   turn_view (run solo 0 [0, 1, 0]) = Some (Inr (''player_0'', []))"
  by code_simp

lemma id_name_possible:
  assumes "getitem (agent_id_name_mapping g) k = Inr name"
  shows "name \<in> set (possible_agents g)"
proof -
  from id_name_lookup_Inr[OF assms] have "nat k < num_players g" "name = player_name (nat k)"
    by simp_all
  then show ?thesis by (simp add: possible_agents_eq)
qed

lemma reset_selection:
  assumes "reset g r = Some (Inr st)"
  shows "agents st = possible_agents g" and "agent_selection st \<in> set (agents st)"
    and "getitem (agent_id_name_mapping g) (current_player g (game_state st)) =
           Inr (agent_selection st)"
proof -
  from reset_Inr[OF assms] obtain s1 s2 s3 name where
    c: "execute_chance_node g (reset_fields g r) = Some (Inr s1)"
    and o: "update_observations g s1 = Inr s2" and m: "update_action_masks g s2 = Inr s3"
    and n: "getitem (agent_id_name_mapping g) (current_player g (game_state s3)) = Inr name"
    and s: "st = s3\<lparr>agent_selection := name\<rparr>"
    by blast
  have "agents s2 = agents s1" by (subst update_observations_Inr(1)[OF o]) simp
  moreover have "agents s3 = agents s2" by (subst update_action_masks_Inr(1)[OF m]) simp
  ultimately show a: "agents st = possible_agents g"
    using chance_frame(1)[OF c] s by (simp add: reset_fields_simps)
  from id_name_possible[OF n] a s show "agent_selection st \<in> set (agents st)" by simp
  from n s show "getitem (agent_id_name_mapping g) (current_player g (game_state st)) =
           Inr (agent_selection st)"
    by simp
qed

lemma step_selection:
  assumes "step g st0 action = Some (Inr st)" and "agents st \<noteq> []"
  shows "terminated_flag g st0 \<or> truncated_flag g st0 \<or> is_simultaneous_node g (game_state st0) \<or>
         set (possible_agents g) \<subseteq> set (agents st0) \<Longrightarrow> agent_selection st \<in> set (agents st)"
proof -
  from step_Inr_cases[OF assms(1)] obtain b st1 where e: "end_routine g st0 = Inr (b, st1)"
    by blast
  have "agent_selection st \<in> set (agents st) \<or>
        (\<not> b \<and> \<not> is_simultaneous_node g (game_state st0) \<and> agents st = agents st0 \<and>
         agent_selection st \<in> set (possible_agents g))"
  proof (cases b)
    case True
    with e step_early[of g st0 st1 action] assms(1) have st: "st = st1" by simp
    note f = end_routine_Inr(4)[OF e]
    have a: "agents st1 = remove1 (agent_selection st0) (agents st0)"
      using True by (subst f) simp
    have "agent_selection st1 =
        (case remove1 (agent_selection st0) (agents st0) of [] \<Rightarrow> agent_selection st0 | x # xs \<Rightarrow> x)"
      using True by (subst f) simp
    with a assms(2) st show ?thesis
      by (cases "remove1 (agent_selection st0) (agents st0)") auto
  next
    case False
    with e have e': "end_routine g st0 = Inr (False, st1)" by simp
    from step_full[OF e' assms(1)] obtain st2 st3 where
      a: "execute_action_node g st1 action = Inr st2"
      and c: "execute_chance_node g st2 = Some (Inr st3)" and u: "updates g st3 = Inr st"
      by blast
    note q = end_routine_False(1)[OF e']
    have f: "game_state st1 = game_state st0" "agent_selection st1 = agent_selection st0"
      "agents st1 = agents st0"
      by (subst q, simp)+
    have ag: "agents st = agents st0"
      using updates_frame(3)[OF u] chance_frame(1)[OF c] execute_action_node_frame(1)[OF a] f(3)
      by simp
    have se: "agent_selection st = agent_selection st2"
      using updates_frame(8)[OF u] chance_frame(9)[OF c] by simp
    show ?thesis
    proof (cases "is_simultaneous_node g (game_state st0)")
      case True
      then have "is_simultaneous_node g (game_state st1)" by (simp add: f)
      then have s1: "is_simultaneous_node g (game_state st1)" .
      from execute_action_node_pending[OF s1 execute_action_node_Inr_pending[OF s1 a]] a
      have "agent_selection st2 \<in> set (agents st1)"
        by auto
      with f ag se show ?thesis by auto
    next
      case n: False
      then have n1: "\<not> is_simultaneous_node g (game_state st1)" by (simp add: f)
      from execute_action_node_turn(5)[OF n1 a]
      have "agent_selection st2 \<in> set (possible_agents g) \<or> agent_selection st2 \<in> set (agents st1)"
        by (auto dest: id_name_possible split: if_splits)
      with f ag se n False show ?thesis by auto
    qed
  qed
  then have d: "agent_selection st \<in> set (agents st) \<or>
        (\<not> (terminated_flag g st0 \<or> truncated_flag g st0) \<and>
         \<not> is_simultaneous_node g (game_state st0) \<and> agents st = agents st0 \<and>
         agent_selection st \<in> set (possible_agents g))"
    using end_routine_Inr(3)[OF e] by auto
  assume "terminated_flag g st0 \<or> truncated_flag g st0 \<or> is_simultaneous_node g (game_state st0) \<or>
         set (possible_agents g) \<subseteq> set (agents st0)"
  with d show "agent_selection st \<in> set (agents st)" by auto
qed

lemma step_retired_selection:
  assumes "step g st0 action = Some (Inr st)" and "agents st \<noteq> []"
    and "terminated_flag g st0 \<or> truncated_flag g st0"
  shows "agents st = remove1 (agent_selection st0) (agents st0)"
    and "agent_selection st = hd (agents st)"
proof -
  from step_Inr_cases[OF assms(1)] obtain b st1 where e: "end_routine g st0 = Inr (b, st1)"
    by blast
  with end_routine_Inr(3)[OF e] assms(3) have e': "end_routine g st0 = Inr (True, st1)"
    by simp
  with step_early[OF e', of action] assms(1) have st: "st = st1" by simp
  note f = end_routine_Inr(4)[OF e']
  show a: "agents st = remove1 (agent_selection st0) (agents st0)"
    unfolding st by (subst f) simp
  have "agent_selection st =
      (case remove1 (agent_selection st0) (agents st0) of [] \<Rightarrow> agent_selection st0 | x # xs \<Rightarrow> x)"
    unfolding st by (subst f) simp
  with a assms(2) show "agent_selection st = hd (agents st)"
    by (cases "remove1 (agent_selection st0) (agents st0)") auto
qed

lemma step_waiting_selection:
  assumes "end_routine g st0 = Inr (False, st1)" and "step g st0 action = Some (Inr st)"
    and "is_simultaneous_node g (game_state st0)"
  shows "agent_selection st \<in> set (agents st)"
    and "agent_selection st \<notin> set (map fst (simultaneous_actions st))"
proof -
  from step_full[OF assms(1,2)] obtain s2 s3 where
    a: "execute_action_node g st1 action = Inr s2"
    and c: "execute_chance_node g s2 = Some (Inr s3)" and u: "updates g s3 = Inr st"
    by blast
  note q = end_routine_False(1)[OF assms(1)]
  have f: "game_state st1 = game_state st0" "agents st1 = agents st0"
    by (subst q, simp)+
  from assms(3) have s1: "is_simultaneous_node g (game_state st1)" by (simp add: f)
  from execute_action_node_pending[OF s1 execute_action_node_Inr_pending[OF s1 a]] a
  have x: "agent_selection s2 \<in> set (agents st1)"
    "agent_selection s2 \<notin> set (map fst (simultaneous_actions s2))"
    by auto
  have ag: "agents st = agents st1"
    using updates_frame(3)[OF u] chance_frame(1)[OF c] execute_action_node_frame(1)[OF a]
    by simp
  have se: "agent_selection st = agent_selection s2"
    "simultaneous_actions st = simultaneous_actions s2"
    using updates_frame(7,8)[OF u] chance_frame(8,9)[OF c] by simp_all
  from x ag se show "agent_selection st \<in> set (agents st)"
    and "agent_selection st \<notin> set (map fst (simultaneous_actions st))"
    by simp_all
qed

lemma step_mover_selection:
  assumes "end_routine g st0 = Inr (False, st1)" and "step g st0 action = Some (Inr st)"
    and "\<not> is_simultaneous_node g (game_state st0)"
    and "\<not> is_chance_node g (apply_action g (game_state st0) action)"
  shows "game_state st = apply_action g (game_state st0) action"
    and "if 0 \<le> current_player g (game_state st)
         then getitem (agent_id_name_mapping g) (current_player g (game_state st)) =
                Inr (agent_selection st)
         else agent_selection st = hd (agents st) \<and> agents st \<noteq> []"
proof -
  from step_full[OF assms(1,2)] obtain s2 s3 where
    a: "execute_action_node g st1 action = Inr s2"
    and c: "execute_chance_node g s2 = Some (Inr s3)" and u: "updates g s3 = Inr st"
    by blast
  note q = end_routine_False(1)[OF assms(1)]
  have f: "game_state st1 = game_state st0" "agents st1 = agents st0"
    by (subst q, simp)+
  from assms(3) have n1: "\<not> is_simultaneous_node g (game_state st1)" by (simp add: f)
  note t = execute_action_node_turn[OF n1 a]
  have g2: "game_state s2 = apply_action g (game_state st0) action"
    using t(1) f by simp
  with assms(4) have "execute_chance_node g s2 = Some (Inr s2)"
    by (simp add: execute_chance_node_not_chance)
  with c have s3: "s3 = s2" by simp
  have gs: "game_state st = game_state s2" "agent_selection st = agent_selection s2"
    "agents st = agents st1"
    using updates_frame(1,3,8)[OF u] s3 execute_action_node_frame(1)[OF a] by simp_all
  from gs g2 show "game_state st = apply_action g (game_state st0) action" by simp
  from t(5) gs show "if 0 \<le> current_player g (game_state st)
         then getitem (agent_id_name_mapping g) (current_player g (game_state st)) =
                Inr (agent_selection st)
         else agent_selection st = hd (agents st) \<and> agents st \<noteq> []"
    by simp
qed

lemma step_ignores_action:
  assumes "terminated_flag g st \<or> truncated_flag g st"
  shows "step g st a = step g st b"
proof (cases "end_routine g st")
  case (Inl e)
  then show ?thesis by (simp add: step_def)
next
  case (Inr p)
  obtain c s1 where p: "p = (c, s1)" by (cases p)
  with Inr end_routine_Inr(3)[of g st c s1] assms have "c" by simp
  with Inr p show ?thesis by (simp add: step_def)
qed

lemma step_stores_action:
  assumes "end_routine g st = Inr (False, st1)" and "is_simultaneous_node g (game_state st)"
    and "pending g st a"
  shows "\<exists>st2. execute_action_node g st1 a = Inr st2 \<and>
          map_of (simultaneous_actions st2) (agent_selection st) = Some a"
proof -
  note q = end_routine_False(1)[OF assms(1)]
  have f: "game_state st1 = game_state st" "agent_selection st1 = agent_selection st"
    "simultaneous_actions st1 = simultaneous_actions st"
    by (subst q, simp)+
  have p: "pending g st1 a"
    using assms(3) by (subst q) simp
  from assms(2) have "is_simultaneous_node g (game_state st1)" by (simp add: f)
  from execute_action_node_pending[OF this p] obtain st2 where
    e: "execute_action_node g st1 a = Inr st2"
    and s: "simultaneous_actions st2 = AList.update (agent_selection st1) a (simultaneous_actions st1)"
    by blast
  have "map_of (simultaneous_actions st2) (agent_selection st) = Some a"
    unfolding s f by (simp add: update_conv')
  with e show ?thesis by blast
qed

lemma step_applies_action:
  assumes "end_routine g st = Inr (False, st1)" and "\<not> is_simultaneous_node g (game_state st)"
    and "execute_action_node g st1 a = Inr st2"
  shows "game_state st2 = apply_action g (game_state st) a"
proof -
  have f: "game_state st1 = game_state st"
    by (rule end_routine_flags(4)[OF assms(1)])
  from assms(2) have "\<not> is_simultaneous_node g (game_state st1)" by (simp add: f)
  from execute_action_node_turn(1)[OF this assms(3)] f show ?thesis by simp
qed

text \<open>
  Not part of the amended claim: \<^verbatim>\<open>step\<close> selects the next agent before its chance
  loop, where \<^verbatim>\<open>reset\<close> selects after it. On \<open>dice\<close> the step of player 0 leads
  through the chance node to a state where player 1 is to move, and player 0 is
  selected.
\<close>

lemma dice_selection:
  "mover_view dice (run dice 0 []) = Some (Inr (''player_0'', 0)) \<and>
   mover_view dice (run dice 0 [0]) = Some (Inr (''player_0'', 1))"
  by code_simp

text \<open>
  C5, amended. After every \<^verbatim>\<open>reset\<close> that returns, \<^verbatim>\<open>self.agents\<close> holds all
  agents of the game and \<^verbatim>\<open>agent_selection\<close> names one of them, the agent of the
  player the simulator has to move. After every \<^verbatim>\<open>step\<close> that returns with an
  agent left: when the call has retired an agent, the first agent left is selected;
  when it has stored an action at a simultaneous node, an agent of
  \<^verbatim>\<open>self.agents\<close> without a stored action is selected; when it has applied the
  action at a node that is not simultaneous and has not reached a chance node, the
  agent of the player to move in the state reached is selected, or the first agent
  if no player is to move; and the selected agent is in \<^verbatim>\<open>self.agents\<close> in the
  first two cases and whenever no agent was retired before the call. The next call
  of \<^verbatim>\<open>step\<close> ignores its action and retires the selected agent when its end
  routine finds that agent terminated or truncated; when it does not, the call
  stores the action under the name of the selected agent at a simultaneous node
  where an agent has still to submit, and applies it to the simulator state at a
  node that is not simultaneous.
\<close>

theorem selection_after_call:
  "(reset g r = Some (Inr st) \<longrightarrow>
      agents st = possible_agents g \<and> agent_selection st \<in> set (agents st) \<and>
      getitem (agent_id_name_mapping g) (current_player g (game_state st)) =
        Inr (agent_selection st)) \<and>
   (step g st0 action = Some (Inr st) \<longrightarrow> agents st \<noteq> [] \<longrightarrow>
    terminated_flag g st0 \<or> truncated_flag g st0 \<longrightarrow>
      agents st = remove1 (agent_selection st0) (agents st0) \<and>
      agent_selection st = hd (agents st)) \<and>
   (end_routine g st0 = Inr (False, st1) \<longrightarrow> step g st0 action = Some (Inr st) \<longrightarrow>
    is_simultaneous_node g (game_state st0) \<longrightarrow>
      agent_selection st \<in> set (agents st) \<and>
      agent_selection st \<notin> set (map fst (simultaneous_actions st))) \<and>
   (end_routine g st0 = Inr (False, st1) \<longrightarrow> step g st0 action = Some (Inr st) \<longrightarrow>
    \<not> is_simultaneous_node g (game_state st0) \<longrightarrow>
    \<not> is_chance_node g (apply_action g (game_state st0) action) \<longrightarrow>
      game_state st = apply_action g (game_state st0) action \<and>
      (if 0 \<le> current_player g (game_state st)
       then getitem (agent_id_name_mapping g) (current_player g (game_state st)) =
              Inr (agent_selection st)
       else agent_selection st = hd (agents st) \<and> agents st \<noteq> [])) \<and>
   (step g st0 action = Some (Inr st) \<longrightarrow> agents st \<noteq> [] \<longrightarrow>
    terminated_flag g st0 \<or> truncated_flag g st0 \<or> is_simultaneous_node g (game_state st0) \<or>
      set (possible_agents g) \<subseteq> set (agents st0) \<longrightarrow>
      agent_selection st \<in> set (agents st)) \<and>
   (terminated_flag g st \<or> truncated_flag g st \<longrightarrow> step g st a = step g st b) \<and>
   (end_routine g st = Inr (False, st2) \<longrightarrow> is_simultaneous_node g (game_state st) \<longrightarrow>
    pending g st a \<longrightarrow>
      (\<exists>st3. execute_action_node g st2 a = Inr st3 \<and>
             map_of (simultaneous_actions st3) (agent_selection st) = Some a)) \<and>
   (end_routine g st = Inr (False, st2) \<longrightarrow> \<not> is_simultaneous_node g (game_state st) \<longrightarrow>
    execute_action_node g st2 a = Inr st3 \<longrightarrow>
      game_state st3 = apply_action g (game_state st) a)"
proof -
  have 1: "reset g r = Some (Inr st) \<longrightarrow>
      agents st = possible_agents g \<and> agent_selection st \<in> set (agents st) \<and>
      getitem (agent_id_name_mapping g) (current_player g (game_state st)) =
        Inr (agent_selection st)"
    using reset_selection[of g r st] by blast
  have 2: "step g st0 action = Some (Inr st) \<longrightarrow> agents st \<noteq> [] \<longrightarrow>
    terminated_flag g st0 \<or> truncated_flag g st0 \<longrightarrow>
      agents st = remove1 (agent_selection st0) (agents st0) \<and>
      agent_selection st = hd (agents st)"
    using step_retired_selection[of g st0 action st] by blast
  have 3: "end_routine g st0 = Inr (False, st1) \<longrightarrow> step g st0 action = Some (Inr st) \<longrightarrow>
    is_simultaneous_node g (game_state st0) \<longrightarrow>
      agent_selection st \<in> set (agents st) \<and>
      agent_selection st \<notin> set (map fst (simultaneous_actions st))"
    using step_waiting_selection[of g st0 st1 action st] by blast
  have 4: "end_routine g st0 = Inr (False, st1) \<longrightarrow> step g st0 action = Some (Inr st) \<longrightarrow>
    \<not> is_simultaneous_node g (game_state st0) \<longrightarrow>
    \<not> is_chance_node g (apply_action g (game_state st0) action) \<longrightarrow>
      game_state st = apply_action g (game_state st0) action \<and>
      (if 0 \<le> current_player g (game_state st)
       then getitem (agent_id_name_mapping g) (current_player g (game_state st)) =
              Inr (agent_selection st)
       else agent_selection st = hd (agents st) \<and> agents st \<noteq> [])"
    using step_mover_selection[of g st0 st1 action st] by blast
  have 5: "step g st0 action = Some (Inr st) \<longrightarrow> agents st \<noteq> [] \<longrightarrow>
    terminated_flag g st0 \<or> truncated_flag g st0 \<or> is_simultaneous_node g (game_state st0) \<or>
      set (possible_agents g) \<subseteq> set (agents st0) \<longrightarrow>
      agent_selection st \<in> set (agents st)"
    using step_selection[of g st0 action st] by blast
  have 6: "terminated_flag g st \<or> truncated_flag g st \<longrightarrow> step g st a = step g st b"
    using step_ignores_action[of g st a b] by blast
  have 7: "end_routine g st = Inr (False, st2) \<longrightarrow> is_simultaneous_node g (game_state st) \<longrightarrow>
    pending g st a \<longrightarrow>
      (\<exists>st3. execute_action_node g st2 a = Inr st3 \<and>
             map_of (simultaneous_actions st3) (agent_selection st) = Some a)"
    using step_stores_action[of g st st2 a] by blast
  have 8: "end_routine g st = Inr (False, st2) \<longrightarrow> \<not> is_simultaneous_node g (game_state st) \<longrightarrow>
    execute_action_node g st2 a = Inr st3 \<longrightarrow>
      game_state st3 = apply_action g (game_state st) a"
    using step_applies_action[of g st st2 a st3] by blast
  from 1 2 3 4 5 6 7 8 show ?thesis by (intro conjI)
qed

lemma relay_session:
  "reset relay 0 = Some (Inr duo_start)"
  "end_routine relay duo_start = Inr (False, duo_start)"
  "step relay duo_start 0 = Some (Inr relay_first)"
  "end_routine relay relay_first = Inr (False, relay_first)"
  "execute_action_node relay relay_first 0 =
     Inr (relay_first\<lparr>game_state := 2, game_length := 3, agent_selection := ''player_0''\<rparr>)"
  by code_simp+

lemma turns_step:
  "step turns turns_start 0 =
     Some (Inr (turns_start\<lparr>terminations := [(''player_0'', True), (''player_1'', True)],
                             agents := [''player_1''], agent_selection := ''player_1''\<rparr>))"
  by (rule step_early[OF turns_end_routine])

theorem selection_after_call_witness:
  "agents duo_start = possible_agents relay \<and>
   agent_selection duo_start \<in> set (agents duo_start) \<and>
   getitem (agent_id_name_mapping relay) (current_player relay (game_state duo_start)) =
     Inr (agent_selection duo_start) \<and>
   agent_selection
     (turns_start\<lparr>terminations := [(''player_0'', True), (''player_1'', True)],
                  agents := [''player_1''], agent_selection := ''player_1''\<rparr>) =
     hd (agents
       (turns_start\<lparr>terminations := [(''player_0'', True), (''player_1'', True)],
                    agents := [''player_1''], agent_selection := ''player_1''\<rparr>)) \<and>
   agent_selection duo_second \<in> set (agents duo_second) \<and>
   agent_selection duo_second \<notin> set (map fst (simultaneous_actions duo_second)) \<and>
   game_state relay_first = apply_action relay (game_state duo_start) 0 \<and>
   current_player relay (game_state relay_first) = 1 \<and>
   agent_selection relay_first = ''player_1'' \<and>
   getitem (agent_id_name_mapping relay) (current_player relay (game_state relay_first)) =
     Inr (agent_selection relay_first) \<and>
   agent_selection relay_first \<in> set (agents relay_first) \<and>
   step solo solo_end 0 = step solo solo_end 1 \<and>
   (\<exists>st3. execute_action_node duo duo_first 1 = Inr st3 \<and>
      map_of (simultaneous_actions st3) (agent_selection duo_first) = Some 1) \<and>
   game_state (relay_first\<lparr>game_state := 2, game_length := 3, agent_selection := ''player_0''\<rparr>) =
     apply_action relay (game_state relay_first) 0"
proof -
  let ?x = "turns_start\<lparr>terminations := [(''player_0'', True), (''player_1'', True)],
                         agents := [''player_1''], agent_selection := ''player_1''\<rparr>"
  let ?y = "relay_first\<lparr>game_state := 2, game_length := 3, agent_selection := ''player_0''\<rparr>"
  note t0 = selection_after_call[where g = relay and r = 0 and st = duo_start]
  note t1 = selection_after_call[where g = turns and st = ?x and ?st0.0 = turns_start
      and action = 0]
  note t2 = selection_after_call[where g = duo and st = duo_second and ?st0.0 = duo_first
      and ?st1.0 = duo_first and action = 1]
  note t3 = selection_after_call[where g = relay and st = relay_first and ?st0.0 = duo_start
      and ?st1.0 = duo_start and action = 0 and ?st2.0 = relay_first and a = 0 and ?st3.0 = ?y]
  note t4 = selection_after_call[where g = solo and st = solo_end and a = 0 and b = 1]
  note t5 = selection_after_call[where g = duo and st = duo_first and ?st2.0 = duo_first
      and a = 1]
  have n: "agents ?x \<noteq> []" "terminated_flag turns turns_start"
    "is_simultaneous_node duo (game_state duo_first)"
    "\<not> is_simultaneous_node relay (game_state duo_start)"
    "\<not> is_chance_node relay (apply_action relay (game_state duo_start) 0)"
    "agents relay_first \<noteq> []"
    "set (possible_agents relay) \<subseteq> set (agents duo_start)"
    "terminated_flag solo solo_end"
    "pending duo duo_first 1"
    "\<not> is_simultaneous_node relay (game_state relay_first)"
    by code_simp+
  have c: "current_player relay (game_state relay_first) = 1"
    "agent_selection relay_first = ''player_1''"
    by code_simp+
  from t0 relay_session(1) have 1: "agents duo_start = possible_agents relay"
    and 2: "agent_selection duo_start \<in> set (agents duo_start)"
    and 3: "getitem (agent_id_name_mapping relay) (current_player relay (game_state duo_start)) =
     Inr (agent_selection duo_start)"
    by blast+
  from t1 turns_step n(1,2) have 4: "agent_selection ?x = hd (agents ?x)"
    by blast
  from t2 duo_session(3,5) n(3) have 5: "agent_selection duo_second \<in> set (agents duo_second)"
    and 6: "agent_selection duo_second \<notin> set (map fst (simultaneous_actions duo_second))"
    by blast+
  from t3 relay_session(2,3) n(4,5)
  have 7: "game_state relay_first = apply_action relay (game_state duo_start) 0"
    and i: "if 0 \<le> current_player relay (game_state relay_first)
       then getitem (agent_id_name_mapping relay) (current_player relay (game_state relay_first)) =
              Inr (agent_selection relay_first)
       else agent_selection relay_first = hd (agents relay_first) \<and> agents relay_first \<noteq> []"
    by blast+
  from i c(1) have 8: "getitem (agent_id_name_mapping relay)
      (current_player relay (game_state relay_first)) = Inr (agent_selection relay_first)"
    by simp
  from t3 relay_session(3) n(6,7) have 9: "agent_selection relay_first \<in> set (agents relay_first)"
    by blast
  from t4 n(8) have 10: "step solo solo_end 0 = step solo solo_end 1"
    by blast
  from t5 duo_session(5) n(3,9) have 11: "\<exists>st3. execute_action_node duo duo_first 1 = Inr st3 \<and>
      map_of (simultaneous_actions st3) (agent_selection duo_first) = Some 1"
    by blast
  from t3 relay_session(4,5) n(10) have 12: "game_state ?y = apply_action relay (game_state relay_first) 0"
    by blast
  show ?thesis
    by (intro conjI) (rule 1 2 3 4 5 6 7 8 9 10 11 12 c)+
qed

end
